theory Spec2Isabelle
  imports Complex_Main "HOL-Library.Word"
begin

section \<open>octoci: the layer build pipeline of \<^verbatim>\<open>main.go\<close>\<close>

text \<open>
  The development follows \<^verbatim>\<open>src/main.go\<close>: the producer goroutine of
  \<^verbatim>\<open>addBlob\<close> (filesystem walk, tar writer, compressor, digester, pipe and
  handoff channel), the consumer loop of \<^verbatim>\<open>addBlob\<close> (blob commit), and
  \<^verbatim>\<open>doBuild\<close> (grouping, pool run, manifest assembly).

  The objects the Go code allocates and shares by reference (pipes, compressors,
  digesters, tar writers) live in explicit stores, lists indexed by allocation
  order; the variables \<^verbatim>\<open>writer\<close>, \<^verbatim>\<open>gzw\<close>, \<^verbatim>\<open>diffID\<close> and
  \<^verbatim>\<open>tw\<close> captured by the walk handler hold indices into these stores.
  What the libraries and the filesystem answer is a parameter: the record
  \<open>lib\<close> for the pure library functions, a \<open>visit\<close> for each invocation of
  the walk handler.
\<close>

subsection \<open>Data\<close>

type_synonym byte = "8 word"

datatype error =
    ThreadPoolCancelled
  | ErrClosedPipe
  | BadSize string
  | OtherError string

text \<open>The write side of an \<^verbatim>\<open>io.Pipe\<close>: the first close decides what the reader sees.\<close>

datatype pstatus = PipeOpen | PipeEOF | PipeErr error

record pipe =
  p_status :: pstatus
  p_bytes :: "byte list"

text \<open>
  A \<^verbatim>\<open>pgzip.Writer\<close>: the uncompressed bytes written into it, the input
  positions at which it was flushed, and the pipe its output goes to
  (\<^verbatim>\<open>bothCompressed = io.MultiWriter(compressedCounter, writer)\<close>).
\<close>

record gz =
  gz_in :: "byte list"
  gz_flushes :: "nat list"
  gz_out :: nat
  gz_closed :: bool

text \<open>
  A \<^verbatim>\<open>tar.Writer\<close> over \<^verbatim>\<open>io.MultiWriter(uncompressedCounter, gzw, diffID.Hash())\<close>:
  the compressor and the digester it was created over, the padding owed for the
  last file body, and whether it is closed.
\<close>

record tarw =
  tw_gz :: nat
  tw_dig :: nat
  tw_pad :: nat
  tw_closed :: bool

datatype event =
    EvTwClose nat
  | EvGzClose nat
  | EvWriterClose nat
  | EvNewPipe nat
  | EvResetUncompressed
  | EvResetCompressed
  | EvNewGz nat
  | EvNewDigester nat
  | EvNewTw nat
  | EvSend nat nat
  | EvFlush nat
  | EvWriteHeader nat string
  | EvCopy nat
  | EvCloseWithError nat error
  | EvCloseChannel

text \<open>
  The state of the producer goroutine. \<open>ch\<close> lists the handles sent on the
  channel, oldest first, each a pair (reader, digester) of store indices.
\<close>

record pstate =
  pipes :: "pipe list"
  gzs :: "gz list"
  digs :: "byte list list"
  tws :: "tarw list"
  writer :: nat
  gzw :: nat
  diffID :: nat
  tw :: nat
  uncompressedCounter :: "64 word"
  compressedCounter :: "64 word"
  ch :: "(nat \<times> nat) list"
  ch_closed :: bool
  trace :: "event list"

text \<open>
  One invocation of the walk handler: the arguments \<^verbatim>\<open>filepath.Walk\<close> passes
  and what the filesystem and \<^verbatim>\<open>archive/tar\<close> answer during it. A write that
  fails may have written a part: the bytes are given with the error.
\<close>

record visit =
  v_path :: string
  v_err :: "error option"
  v_symlink :: bool
  v_readlink :: "error option"
  v_header :: "error option"
  v_size :: "64 word"
  v_writeHeader :: "string \<Rightarrow> byte list \<times> error option"
  v_reg :: bool
  v_open :: "error option"
  v_copy :: "byte list \<times> error option"

text \<open>
  The library functions: SHA-256, what the compressor emits on a flush and on
  close (from its input and flush positions), \<^verbatim>\<open>float64\<close> with its
  conversions, constants and operations, and the blob store's \<^verbatim>\<open>PutBlob\<close> on a
  stream read to its end.
\<close>

record 'f lib =
  sha256 :: "byte list \<Rightarrow> string"
  gzFlushOut :: "byte list \<Rightarrow> nat list \<Rightarrow> byte list"
  gzCloseOut :: "byte list \<Rightarrow> nat list \<Rightarrow> byte list"
  f_u64 :: "64 word \<Rightarrow> 'f"
  f_i64 :: "64 word \<Rightarrow> 'f"
  f_1000 :: 'f
  f_005 :: 'f
  fadd :: "'f \<Rightarrow> 'f \<Rightarrow> 'f"
  fsub :: "'f \<Rightarrow> 'f \<Rightarrow> 'f"
  fmul :: "'f \<Rightarrow> 'f \<Rightarrow> 'f"
  fdiv :: "'f \<Rightarrow> 'f \<Rightarrow> 'f"
  fgt :: "'f \<Rightarrow> 'f \<Rightarrow> bool"
  storePut :: "byte list \<Rightarrow> error + (string \<times> 64 word)"

subsection \<open>The writers\<close>

definition log_ev :: "event \<Rightarrow> pstate \<Rightarrow> pstate" where
  "log_ev e s = s\<lparr>trace := trace s @ [e]\<rparr>"

text \<open>\<^verbatim>\<open>writeCounter.Write\<close>: \<^verbatim>\<open>wc.written += uint64(n)\<close>, on 64 bits.\<close>

definition wc_Write :: "64 word \<Rightarrow> byte list \<Rightarrow> 64 word" where
  "wc_Write written p = written + of_nat (length p)"

text \<open>
  \<^verbatim>\<open>bothCompressed.Write\<close>: the compressed counter first, then the pipe, which
  refuses once its write side is closed.
\<close>

definition bothCompressed_Write :: "nat \<Rightarrow> byte list \<Rightarrow> pstate \<Rightarrow> error option \<times> pstate" where
  "bothCompressed_Write w p s =
     (let s1 = s\<lparr>compressedCounter := wc_Write (compressedCounter s) p\<rparr> in
      if p_status (pipes s1 ! w) = PipeOpen
      then (None, s1\<lparr>pipes := (pipes s1)[w := (pipes s1 ! w)\<lparr>p_bytes := p_bytes (pipes s1 ! w) @ p\<rparr>]\<rparr>)
      else (Some ErrClosedPipe, s1))"

text \<open>\<^verbatim>\<open>gzw.Flush()\<close>: everything buffered is compressed and written downstream.\<close>

definition gz_Flush :: "'f lib \<Rightarrow> nat \<Rightarrow> pstate \<Rightarrow> error option \<times> pstate" where
  "gz_Flush L g s =
     (let z = gzs s ! g;
          out = gzFlushOut L (gz_in z) (gz_flushes z);
          s1 = log_ev (EvFlush g) (s\<lparr>gzs := (gzs s)[g := z\<lparr>gz_flushes := gz_flushes z @ [length (gz_in z)]\<rparr>]\<rparr>)
      in bothCompressed_Write (gz_out z) out s1)"

text \<open>\<^verbatim>\<open>gzw.Close()\<close>; its error is dropped by every caller. A second close does nothing.\<close>

definition gz_Close :: "'f lib \<Rightarrow> nat \<Rightarrow> pstate \<Rightarrow> pstate" where
  "gz_Close L g s =
     (let z = gzs s ! g in
      if gz_closed z then log_ev (EvGzClose g) s
      else snd (bothCompressed_Write (gz_out z) (gzCloseOut L (gz_in z) (gz_flushes z))
                 (log_ev (EvGzClose g) (s\<lparr>gzs := (gzs s)[g := z\<lparr>gz_closed := True\<rparr>]\<rparr>))))"

text \<open>
  A write of the tar writer \<open>t\<close> into its
  \<^verbatim>\<open>io.MultiWriter(uncompressedCounter, gzw, diffID.Hash())\<close>: the counter, the
  compressor and the digester the writer was created over each take the bytes.
  When a write of the compressor fails, \<^verbatim>\<open>io.MultiWriter\<close> stops before the
  digester; the tar writer then reports the error, the handler returns it, and
  \<^verbatim>\<open>writer.CloseWithError\<close> fails the segment's pipe, so that no diff-id is
  ever taken from that digester. The model gives the bytes of a failed write to
  all three.
\<close>

definition mw_Write :: "nat \<Rightarrow> byte list \<Rightarrow> pstate \<Rightarrow> pstate" where
  "mw_Write t p s =
     (let g = tw_gz (tws s ! t); d = tw_dig (tws s ! t) in
      s\<lparr>uncompressedCounter := wc_Write (uncompressedCounter s) p,
        gzs := (gzs s)[g := (gzs s ! g)\<lparr>gz_in := gz_in (gzs s ! g) @ p\<rparr>],
        digs := (digs s)[d := digs s ! d @ p]\<rparr>)"

definition zeros :: "nat \<Rightarrow> byte list" where
  "zeros n = replicate n 0"

text \<open>The padding that completes a body of \<open>n\<close> bytes to a multiple of 512.\<close>

definition tar_padding :: "nat \<Rightarrow> nat" where
  "tar_padding n = (512 - n mod 512) mod 512"

text \<open>\<^verbatim>\<open>tw.Close()\<close>: the owed padding and the two zero blocks of the trailer.\<close>

definition tw_Close :: "nat \<Rightarrow> pstate \<Rightarrow> pstate" where
  "tw_Close t s =
     (let w = tws s ! t in
      if tw_closed w then log_ev (EvTwClose t) s
      else log_ev (EvTwClose t)
             ((mw_Write t (zeros (tw_pad w) @ zeros 1024) s)
                \<lparr>tws := (tws s)[t := w\<lparr>tw_pad := 0, tw_closed := True\<rparr>]\<rparr>))"

text \<open>\<^verbatim>\<open>writer.Close()\<close> and \<^verbatim>\<open>writer.CloseWithError(err)\<close>.\<close>

definition pipe_close :: "pstatus \<Rightarrow> nat \<Rightarrow> pstate \<Rightarrow> pstate" where
  "pipe_close st w s =
     (if p_status (pipes s ! w) = PipeOpen
      then s\<lparr>pipes := (pipes s)[w := (pipes s ! w)\<lparr>p_status := st\<rparr>]\<rparr>
      else s)"

definition writer_Close :: "nat \<Rightarrow> pstate \<Rightarrow> pstate" where
  "writer_Close w s = log_ev (EvWriterClose w) (pipe_close PipeEOF w s)"

definition writer_CloseWithError :: "error \<Rightarrow> nat \<Rightarrow> pstate \<Rightarrow> pstate" where
  "writer_CloseWithError e w s = log_ev (EvCloseWithError w e) (pipe_close (PipeErr e) w s)"

subsection \<open>Allocation and the handoff channel\<close>

definition new_pipe :: "pstate \<Rightarrow> pstate" where
  "new_pipe s =
     log_ev (EvNewPipe (length (pipes s)))
       (s\<lparr>pipes := pipes s @ [\<lparr>p_status = PipeOpen, p_bytes = []\<rparr>], writer := length (pipes s)\<rparr>)"

definition new_gz :: "pstate \<Rightarrow> pstate" where
  "new_gz s =
     log_ev (EvNewGz (length (gzs s)))
       (s\<lparr>gzs := gzs s @ [\<lparr>gz_in = [], gz_flushes = [], gz_out = writer s, gz_closed = False\<rparr>],
          gzw := length (gzs s)\<rparr>)"

definition new_digester :: "pstate \<Rightarrow> pstate" where
  "new_digester s =
     log_ev (EvNewDigester (length (digs s)))
       (s\<lparr>digs := digs s @ [[]], diffID := length (digs s)\<rparr>)"

definition new_tw :: "pstate \<Rightarrow> pstate" where
  "new_tw s =
     log_ev (EvNewTw (length (tws s)))
       (s\<lparr>tws := tws s @ [\<lparr>tw_gz = gzw s, tw_dig = diffID s, tw_pad = 0, tw_closed = False\<rparr>],
          tw := length (tws s)\<rparr>)"

text \<open>\<^verbatim>\<open>ch <- struct{reader, diffID}\<close>: the read side of the current pipe and the current digester.\<close>

definition send :: "pstate \<Rightarrow> pstate" where
  "send s = log_ev (EvSend (writer s) (diffID s)) (s\<lparr>ch := ch s @ [(writer s, diffID s)]\<rparr>)"

definition reset_uncompressed :: "pstate \<Rightarrow> pstate" where
  "reset_uncompressed s = log_ev EvResetUncompressed (s\<lparr>uncompressedCounter := 0\<rparr>)"

definition reset_compressed :: "pstate \<Rightarrow> pstate" where
  "reset_compressed s = log_ev EvResetCompressed (s\<lparr>compressedCounter := 0\<rparr>)"

definition empty_state :: pstate where
  "empty_state =
     \<lparr>pipes = [], gzs = [], digs = [], tws = [], writer = 0, gzw = 0, diffID = 0, tw = 0,
      uncompressedCounter = 0, compressedCounter = 0, ch = [], ch_closed = False, trace = []\<rparr>"

text \<open>Lines 240 to 264: the goroutine up to the loop over the rootfses.\<close>

definition producer_start :: pstate where
  "producer_start = new_tw (send (new_digester (new_gz (new_pipe empty_state))))"

subsection \<open>The walk handler\<close>

text \<open>
  The split decision of line 311, in \<^verbatim>\<open>float64\<close>:
  \<^verbatim>\<open>float64(c) + ratio*(1000+float64(size)) > float64(m) - float64(m)*0.05\<close>
  with \<^verbatim>\<open>ratio = float64(c) / float64(u)\<close>.
\<close>

definition ratio :: "'f lib \<Rightarrow> 64 word \<Rightarrow> 64 word \<Rightarrow> 'f" where
  "ratio L c u = fdiv L (f_u64 L c) (f_u64 L u)"

definition over_budget :: "'f lib \<Rightarrow> 64 word \<Rightarrow> 64 word \<Rightarrow> 64 word \<Rightarrow> 64 word \<Rightarrow> bool" where
  "over_budget L m c u sz =
     fgt L (fadd L (f_u64 L c) (fmul L (ratio L c u) (fadd L (f_1000 L) (f_i64 L sz))))
           (fsub L (f_u64 L m) (fmul L (f_u64 L m) (f_005 L)))"

text \<open>Lines 313 to 333: the body of the split.\<close>

definition split :: "'f lib \<Rightarrow> pstate \<Rightarrow> pstate" where
  "split L s =
     (let s1 = tw_Close (tw s) s;
          s2 = gz_Close L (gzw s1) s1;
          s3 = writer_Close (writer s2) s2;
          s4 = new_pipe s3;
          s5 = reset_uncompressed s4;
          s6 = reset_compressed s5;
          s7 = new_gz s6;
          s8 = new_digester s7;
          s9 = new_tw s8
      in send s9)"

text \<open>
  \<^verbatim>\<open>tw.WriteHeader(hdr)\<close>: the padding owed for the previous body, then the
  header blocks; the padding owed next is that of a regular file's declared size.
\<close>

definition tw_WriteHeader :: "visit \<Rightarrow> string \<Rightarrow> pstate \<Rightarrow> error option \<times> pstate" where
  "tw_WriteHeader v name s =
     (let t = tw s; w = tws s ! t;
          (blocks, err) = v_writeHeader v name;
          s1 = log_ev (EvWriteHeader t name) (mw_Write t (zeros (tw_pad w) @ blocks) s)
      in (err, s1\<lparr>tws := (tws s1)[t := (tws s1 ! t)\<lparr>tw_pad := (if v_reg v then tar_padding (unat (v_size v)) else 0)\<rparr>]\<rparr>))"

text \<open>\<^verbatim>\<open>io.Copy(tw, f)\<close>: the file's bytes go through the tar writer.\<close>

definition copy_file :: "visit \<Rightarrow> pstate \<Rightarrow> (error option \<times> int) \<times> pstate" where
  "copy_file v s =
     (let (body, err) = v_copy v
      in ((err, int (length body)), log_ev (EvCopy (tw s)) (mw_Write (tw s) body s)))"

text \<open>Lines 296 to 335: the size check before an entry is written.\<close>

definition size_check :: "'f lib \<Rightarrow> 64 word \<Rightarrow> visit \<Rightarrow> pstate \<Rightarrow> error option \<times> pstate" where
  "size_check L maxLayerSize v s =
     (if maxLayerSize > 0 \<and> uncompressedCounter s > 0 then
        (case gz_Flush L (gzw s) s of
           (Some e, s1) \<Rightarrow> (Some e, s1)
         | (None, s1) \<Rightarrow>
             if over_budget L maxLayerSize (compressedCounter s1) (uncompressedCounter s1) (v_size v)
             then (None, split L s1)
             else (None, s1))
      else (None, s))"

text \<open>
  Lines 337 to 360: the entry is written into the current tar writer. The
  header's name is \<^verbatim>\<open>path[len(rootfs):]\<close>; every path of a walk extends its
  root, which \<^verbatim>\<open>doBuild\<close> has made absolute and clean, so the slice is in range.
\<close>

definition write_entry :: "string \<Rightarrow> visit \<Rightarrow> pstate \<Rightarrow> error option \<times> pstate" where
  "write_entry rootfs v s =
     (case tw_WriteHeader v (drop (length rootfs) (v_path v)) s of
        (Some e, s1) \<Rightarrow> (Some e, s1)
      | (None, s1) \<Rightarrow>
          if v_reg v then
            (case v_open v of
               Some e \<Rightarrow> (Some e, s1)
             | None \<Rightarrow>
                 (case copy_file v s1 of
                    ((Some e, n), s2) \<Rightarrow> (Some e, s2)
                  | ((None, n), s2) \<Rightarrow>
                      if n \<noteq> sint (v_size v) then (Some (BadSize (v_path v)), s2)
                      else (None, s2)))
          else (None, s1))"

text \<open>
  The handler of lines 267 to 361. \<open>cancelled\<close> is whether \<^verbatim>\<open>ctx.Done()\<close> is
  closed when the handler is entered.
\<close>

definition handler :: "'f lib \<Rightarrow> 64 word \<Rightarrow> string \<Rightarrow> bool \<Rightarrow> visit \<Rightarrow> pstate \<Rightarrow> error option \<times> pstate" where
  "handler L maxLayerSize rootfs cancelled v s =
     (if cancelled then (Some ThreadPoolCancelled, s)
      else if v_err v \<noteq> None then (v_err v, s)
      else if v_path v = rootfs then (None, s)
      else if v_symlink v \<and> v_readlink v \<noteq> None then (v_readlink v, s)
      else if v_header v \<noteq> None then (v_header v, s)
      else
        (case size_check L maxLayerSize v s of
           (Some e, s1) \<Rightarrow> (Some e, s1)
         | (None, s1) \<Rightarrow> write_entry rootfs v s1))"

subsection \<open>The walk, the producer and the consumer\<close>

text \<open>
  The cancellation signal as the handler sees it: \<open>None\<close> is a context that is
  never cancelled, \<open>Some n\<close> one that is cancelled after \<open>n\<close> more invocations
  of the handler. Once closed, \<^verbatim>\<open>ctx.Done()\<close> stays closed.
\<close>

type_synonym ctx = "nat option"

definition ctx_done :: "ctx \<Rightarrow> bool" where
  "ctx_done c = (c = Some 0)"

fun ctx_tick :: "ctx \<Rightarrow> ctx" where
  "ctx_tick (Some (Suc n)) = Some n"
| "ctx_tick c = c"

text \<open>
  \<^verbatim>\<open>filepath.Walk(rootfs, handler)\<close> over the visits the tree offers in walk
  order: it stops at the first error the handler returns, and returns it.
\<close>

fun walk :: "'f lib \<Rightarrow> 64 word \<Rightarrow> string \<Rightarrow> visit list \<Rightarrow> ctx \<Rightarrow> pstate \<Rightarrow> error option \<times> ctx \<times> pstate" where
  "walk L m rootfs [] c s = (None, c, s)"
| "walk L m rootfs (v # vs) c s =
     (case handler L m rootfs (ctx_done c) v s of
        (Some e, s1) \<Rightarrow> (Some e, ctx_tick c, s1)
      | (None, s1) \<Rightarrow> walk L m rootfs vs (ctx_tick c) s1)"

text \<open>Lines 266 to 368: every rootfs is walked, also after an earlier walk failed.\<close>

fun walk_all :: "'f lib \<Rightarrow> 64 word \<Rightarrow> (string \<Rightarrow> visit list) \<Rightarrow> string list \<Rightarrow> ctx \<Rightarrow> pstate \<Rightarrow> ctx \<times> pstate" where
  "walk_all L m fs [] c s = (c, s)"
| "walk_all L m fs (rootfs # rest) c s =
     (case walk L m rootfs (fs rootfs) c s of
        (Some e, c1, s1) \<Rightarrow> walk_all L m fs rest c1 (writer_CloseWithError e (writer s1) s1)
      | (None, c1, s1) \<Rightarrow> walk_all L m fs rest c1 s1)"

text \<open>
  Lines 370 to 372 and the deferred calls, which run last to first on the
  objects of the first segment: \<^verbatim>\<open>tw.Close()\<close>, \<^verbatim>\<open>close(ch)\<close>,
  \<^verbatim>\<open>gzw.Close()\<close>, \<^verbatim>\<open>writer.Close()\<close>.
\<close>

definition producer_finish :: "'f lib \<Rightarrow> pstate \<Rightarrow> pstate" where
  "producer_finish L s =
     (let s1 = tw_Close (tw s) s;
          s2 = gz_Close L (gzw s1) s1;
          s3 = writer_Close (writer s2) s2;
          s4 = tw_Close 0 s3;
          s5 = log_ev EvCloseChannel (s4\<lparr>ch_closed := True\<rparr>);
          s6 = gz_Close L 0 s5
      in writer_Close 0 s6)"

definition producer :: "'f lib \<Rightarrow> 64 word \<Rightarrow> (string \<Rightarrow> visit list) \<Rightarrow> string list \<Rightarrow> ctx \<Rightarrow> pstate" where
  "producer L m fs rootfses c = producer_finish L (snd (walk_all L m fs rootfses c producer_start))"

record descriptor =
  MediaType :: string
  Digest :: string
  Size :: "64 word"

definition MediaTypeImageLayerGzip :: string where
  "MediaTypeImageLayerGzip = ''application/vnd.oci.image.layer.v1.tar+gzip''"

record rootfsProcessor =
  rp_maxLayerSize :: "64 word"
  rp_rootfses :: "string list"
  rp_diffID :: "string list"
  rp_layerDesc :: "descriptor list"

text \<open>
  \<^verbatim>\<open>rp.oci.PutBlob(ctx, reader)\<close> reads the pipe to its end: a pipe closed with
  an error hands that error to its reader, otherwise the store answers for the
  bytes that went through.
\<close>

definition PutBlob :: "'f lib \<Rightarrow> pipe \<Rightarrow> error + (string \<times> 64 word)" where
  "PutBlob L p = (case p_status p of PipeErr e \<Rightarrow> Inl e | _ \<Rightarrow> storePut L (p_bytes p))"

text \<open>
  Lines 375 to 398, over the handles in the order they were sent. A handle's
  stream has ended when \<^verbatim>\<open>PutBlob\<close> returns, so its pipe and its digester are
  read in the producer's final state \<open>s\<close>.
\<close>

fun consumer :: "'f lib \<Rightarrow> pstate \<Rightarrow> (nat \<times> nat) list \<Rightarrow> rootfsProcessor \<Rightarrow> error option \<times> rootfsProcessor" where
  "consumer L s [] rp = (None, rp)"
| "consumer L s ((reader, d) # hs) rp =
     (case PutBlob L (pipes s ! reader) of
        Inl e \<Rightarrow> (Some e, rp)
      | Inr (dg, sz) \<Rightarrow>
          consumer L s hs
            (rp\<lparr>rp_layerDesc := rp_layerDesc rp @ [\<lparr>MediaType = MediaTypeImageLayerGzip, Digest = dg, Size = sz\<rparr>],
               rp_diffID := rp_diffID rp @ [sha256 L (digs s ! d)]\<rparr>))"

definition addBlob :: "'f lib \<Rightarrow> (string \<Rightarrow> visit list) \<Rightarrow> ctx \<Rightarrow> rootfsProcessor \<Rightarrow> error option \<times> rootfsProcessor" where
  "addBlob L fs c rp =
     (let s = producer L (rp_maxLayerSize rp) fs (rp_rootfses rp) c
      in consumer L s (ch s) rp)"

subsection \<open>The build: grouping, pool run and assembly\<close>

record manifest =
  m_Config :: descriptor
  m_Layers :: "descriptor list"

record image =
  i_DiffIDs :: "string list"

definition MediaTypeImageConfig :: string where
  "MediaTypeImageConfig = ''application/vnd.oci.image.config.v1+json''"

definition MediaTypeImageManifest :: string where
  "MediaTypeImageManifest = ''application/vnd.oci.image.manifest.v1+json''"

text \<open>What \<^verbatim>\<open>doBuild\<close> does to the image layout, in the order it does it.\<close>

datatype oci_op =
    OpOpenLayout
  | OpResolveReference string
  | OpFromDescriptor descriptor
  | OpPutBlobJSONConfig image
  | OpPutBlobJSONManifest manifest
  | OpUpdateReference string descriptor
  | OpClose
  | OpGC

datatype outcome = Returned "error option" | Panicked string

text \<open>
  The command line and everything outside the program that \<^verbatim>\<open>doBuild\<close>
  consults: the flags, the rootfs list file, skopeo, the image layout, the
  filesystem, and the pool's schedule. \<open>w_sched\<close> is the order in which the
  pool completes the tasks; \<open>w_cancel i\<close> is how many more entries task \<open>i\<close>
  visits before it observes a cancellation raised while it runs.
\<close>

record world =
  w_args :: "string list"
  w_ociDir :: string
  w_tag :: string
  w_dirsPerBlob :: int
  w_maxLayerSize :: "64 word"
  w_readFile :: "error + string"
  w_trimSpace :: "string \<Rightarrow> string"
  w_skopeo :: "(string \<times> string) option"
  w_openLayout :: "error option"
  w_abs :: "string \<Rightarrow> error + string"
  w_fs :: "string \<Rightarrow> visit list"
  w_sched :: "nat list"
  w_cancel :: "nat \<Rightarrow> nat"
  w_resolve :: "error + descriptor list"
  w_manifest :: "descriptor \<Rightarrow> error + manifest option"
  w_image :: "descriptor \<Rightarrow> error + image option"
  w_putConfig :: "image \<Rightarrow> error + (string \<times> 64 word)"
  w_putManifest :: "manifest \<Rightarrow> error + (string \<times> 64 word)"
  w_updateReference :: "error option"

text \<open>\<^verbatim>\<open>strings.Split(s, "\n")\<close>: never empty, one more piece than there are newlines.\<close>

fun Split_nl :: "string \<Rightarrow> string list" where
  "Split_nl [] = [[]]"
| "Split_nl (c # cs) =
     (if c = CHR 0x0A then [] # Split_nl cs
      else (case Split_nl cs of l # ls \<Rightarrow> (c # l) # ls | [] \<Rightarrow> [[c]]))"

text \<open>Go's \<^verbatim>\<open>%\<close> on integers truncates towards zero; its divisor is not zero here.\<close>

definition go_rem :: "int \<Rightarrow> int \<Rightarrow> int" where
  "go_rem a b = sgn a * (\<bar>a\<bar> mod \<bar>b\<bar>)"

text \<open>
  Lines 126 to 139. \<^verbatim>\<open>i % ctx.Int("dirs-per-blob")\<close> panics on a zero divisor;
  \<^verbatim>\<open>tasks[len(tasks)-1]\<close> panics on an empty slice.
\<close>

fun group_rootfses ::
  "int \<Rightarrow> 64 word \<Rightarrow> (string \<Rightarrow> error + string) \<Rightarrow> nat \<Rightarrow> string list \<Rightarrow> rootfsProcessor list
     \<Rightarrow> outcome + rootfsProcessor list" where
  "group_rootfses d m absf i [] tasks = Inr tasks"
| "group_rootfses d m absf i (rootfs # rest) tasks =
     (if d = 0 then Inl (Panicked ''integer divide by zero'')
      else
        (let tasks1 =
           (if go_rem (int i) d = 0
            then tasks @ [\<lparr>rp_maxLayerSize = m, rp_rootfses = [], rp_diffID = [], rp_layerDesc = []\<rparr>]
            else tasks)
         in case absf rootfs of
              Inl e \<Rightarrow> Inl (Returned (Some e))
            | Inr a \<Rightarrow>
                if tasks1 = [] then Inl (Panicked ''index out of range'')
                else group_rootfses d m absf (Suc i) rest
                       (tasks1[length tasks1 - 1 :=
                          (last tasks1)\<lparr>rp_rootfses := rp_rootfses (last tasks1) @ [a]\<rparr>])))"

text \<open>
  Modelled from the spec: the worker pool of package \<^verbatim>\<open>pool\<close>, whose source
  is not among the files. \<^verbatim>\<open>Run\<close> executes every registered task and returns
  the first error that is not the cancellation sentinel, or nil; once a task
  has failed, the tasks still running or not yet started see the shared
  context cancelled. A task writes to its own \<^verbatim>\<open>rootfsProcessor\<close> only.
\<close>

fun pool_Run ::
  "'f lib \<Rightarrow> (string \<Rightarrow> visit list) \<Rightarrow> (nat \<Rightarrow> nat) \<Rightarrow> nat list \<Rightarrow> error option \<Rightarrow> rootfsProcessor list
     \<Rightarrow> error option \<times> rootfsProcessor list" where
  "pool_Run L fs cancel [] failed tasks = (failed, tasks)"
| "pool_Run L fs cancel (i # sched) failed tasks =
     (let c = (if failed = None then None else Some (cancel i));
          (e, t) = addBlob L fs c (tasks ! i);
          failed1 = (if failed = None \<and> e \<noteq> None \<and> e \<noteq> Some ThreadPoolCancelled then e else failed)
      in pool_Run L fs cancel sched failed1 (tasks[i := t]))"

text \<open>Lines 182 to 185.\<close>

fun assemble :: "rootfsProcessor list \<Rightarrow> image \<Rightarrow> manifest \<Rightarrow> image \<times> manifest" where
  "assemble [] config mf = (config, mf)"
| "assemble (task # tasks) config mf =
     assemble tasks (config\<lparr>i_DiffIDs := i_DiffIDs config @ rp_diffID task\<rparr>)
       (mf\<lparr>m_Layers := m_Layers mf @ rp_layerDesc task\<rparr>)"

text \<open>Lines 153 to 212: what follows a successful pool run.\<close>

definition finish_build :: "world \<Rightarrow> rootfsProcessor list \<Rightarrow> outcome \<times> oci_op list" where
  "finish_build W tasks =
     (case w_resolve W of
        Inl e \<Rightarrow> (Returned (Some e), [OpResolveReference (w_tag W)])
      | Inr descriptorPaths \<Rightarrow>
          if length descriptorPaths \<noteq> 1
          then (Returned (Some (OtherError (''bad tag: '' @ w_tag W))), [OpResolveReference (w_tag W)])
          else
            (let d0 = hd descriptorPaths; ops1 = [OpResolveReference (w_tag W), OpFromDescriptor d0] in
             case w_manifest W d0 of
               Inl e \<Rightarrow> (Returned (Some e), ops1)
             | Inr None \<Rightarrow> (Returned (Some (OtherError ''bad manifest data type'')), ops1)
             | Inr (Some mf) \<Rightarrow>
                 (let ops2 = ops1 @ [OpFromDescriptor (m_Config mf)] in
                  case w_image W (m_Config mf) of
                    Inl e \<Rightarrow> (Returned (Some e), ops2)
                  | Inr None \<Rightarrow> (Returned (Some (OtherError ''bad config data type'')), ops2)
                  | Inr (Some config) \<Rightarrow>
                      (let (config1, mf1) = assemble tasks config mf;
                           ops3 = ops2 @ [OpPutBlobJSONConfig config1] in
                       case w_putConfig W config1 of
                         Inl e \<Rightarrow> (Returned (Some e), ops3)
                       | Inr (dg, sz) \<Rightarrow>
                           (let mf2 = mf1\<lparr>m_Config := \<lparr>MediaType = MediaTypeImageConfig, Digest = dg, Size = sz\<rparr>\<rparr>;
                                ops4 = ops3 @ [OpPutBlobJSONManifest mf2] in
                            case w_putManifest W mf2 of
                              Inl e \<Rightarrow> (Returned (Some e), ops4)
                            | Inr (dg2, sz2) \<Rightarrow>
                                (Returned (w_updateReference W),
                                 ops4 @ [OpUpdateReference (w_tag W)
                                           \<lparr>MediaType = MediaTypeImageManifest, Digest = dg2, Size = sz2\<rparr>]))))))"

text \<open>
  \<^verbatim>\<open>doBuild\<close>. Once the layout is open, \<^verbatim>\<open>oci.Close()\<close> and then
  \<^verbatim>\<open>oci.GC()\<close> are deferred calls: they run last, on a return and on a
  panic alike.
\<close>

definition doBuild :: "'f lib \<Rightarrow> world \<Rightarrow> outcome \<times> oci_op list" where
  "doBuild L W =
     (if length (w_args W) \<noteq> 2 then (Returned (Some (OtherError ''wrong number of arguments'')), [])
      else
        (case w_readFile W of
           Inl e \<Rightarrow> (Returned (Some e), [])
         | Inr raw \<Rightarrow>
             (let rootfses = Split_nl (w_trimSpace W raw) in
              case w_skopeo W of
                Some (err, out) \<Rightarrow>
                  (Returned (Some (OtherError (''image import failed: '' @ err @ '': '' @ out))), [])
              | None \<Rightarrow>
                  (case w_openLayout W of
                     Some e \<Rightarrow> (Returned (Some e), [])
                   | None \<Rightarrow>
                       (let (res, ops) =
                          (case group_rootfses (w_dirsPerBlob W) (w_maxLayerSize W) (w_abs W) 0 rootfses [] of
                             Inl out \<Rightarrow> (out, [])
                           | Inr tasks \<Rightarrow>
                               (case pool_Run L (w_fs W) (w_cancel W) (w_sched W) None tasks of
                                  (Some e, tasks1) \<Rightarrow> (Returned (Some e), [])
                                | (None, tasks1) \<Rightarrow> finish_build W tasks1))
                        in (res, [OpOpenLayout] @ ops @ [OpClose, OpGC]))))))"

subsection \<open>Reachable producer states and their invariants\<close>

text \<open>
  The states the producer goroutine is in between two steps of its loops: the
  state before the first walk, the state after an invocation of the handler,
  and the state after \<^verbatim>\<open>writer.CloseWithError(err)\<close> on the current writer.
\<close>

inductive reach :: "'f lib \<Rightarrow> 64 word \<Rightarrow> pstate \<Rightarrow> bool" for L :: "'f lib" and m :: "64 word" where
  reach_start: "reach L m producer_start"
| reach_handler: "reach L m s \<Longrightarrow> reach L m (snd (handler L m rootfs cancelled v s))"
| reach_error: "reach L m s \<Longrightarrow> reach L m (writer_CloseWithError e (writer s) s)"

text \<open>
  The stores are aligned: the \<open>k\<close>-th handle sent is pipe \<open>k\<close> with digester
  \<open>k\<close>, compressor \<open>k\<close> writes to pipe \<open>k\<close>, tar writer \<open>k\<close> writes to
  compressor \<open>k\<close> and digester \<open>k\<close>, the variables hold the last index, and
  each digester has taken exactly the bytes its compressor has.
\<close>

definition wf :: "pstate \<Rightarrow> bool" where
  "wf s \<longleftrightarrow>
     0 < length (ch s) \<and>
     length (pipes s) = length (ch s) \<and> length (gzs s) = length (ch s) \<and>
     length (digs s) = length (ch s) \<and> length (tws s) = length (ch s) \<and>
     writer s = length (ch s) - 1 \<and> gzw s = length (ch s) - 1 \<and>
     diffID s = length (ch s) - 1 \<and> tw s = length (ch s) - 1 \<and>
     ch s = map (\<lambda>i. (i, i)) [0..<length (ch s)] \<and>
     (\<forall>i<length (ch s). gz_out (gzs s ! i) = i \<and> tw_gz (tws s ! i) = i \<and>
        tw_dig (tws s ! i) = i \<and> digs s ! i = gz_in (gzs s ! i))"

text \<open>
  The counters count the current segment: the uncompressed counter the bytes
  written into the current compressor, the compressed counter the bytes written
  to the current pipe while it is open.
\<close>

definition counters_ok :: "pstate \<Rightarrow> bool" where
  "counters_ok s \<longleftrightarrow>
     uncompressedCounter s = of_nat (length (gz_in (gzs s ! gzw s))) \<and>
     (p_status (pipes s ! writer s) = PipeOpen \<longrightarrow>
        compressedCounter s = of_nat (length (p_bytes (pipes s ! writer s))))"

text \<open>
  The rootfses hold no entries: each walk visits the root of its tree and
  nothing else, and the root is there.
\<close>

definition roots_only :: "(string \<Rightarrow> visit list) \<Rightarrow> string list \<Rightarrow> bool" where
  "roots_only fs rs \<longleftrightarrow> (\<forall>r\<in>set rs. \<forall>v\<in>set (fs r). v_err v = None \<and> v_path v = r)"

subsection \<open>An instance of the parameters\<close>

text \<open>
  To run the model on concrete inputs: exact rational arithmetic in the place
  of \<^verbatim>\<open>float64\<close>, a compressor that copies its input, and a digest that
  spells out the bytes.
\<close>

definition spell :: "byte list \<Rightarrow> string" where
  "spell bs = map (\<lambda>b. char_of (unat b)) bs"

definition copy_out :: "byte list \<Rightarrow> nat list \<Rightarrow> byte list" where
  "copy_out inp fl = drop (if fl = [] then 0 else last fl) inp"

definition exact_lib :: "rat lib" where
  "exact_lib =
     \<lparr>sha256 = spell, gzFlushOut = copy_out, gzCloseOut = copy_out,
      f_u64 = (\<lambda>w. of_nat (unat w)), f_i64 = (\<lambda>w. of_int (sint w)),
      f_1000 = 1000, f_005 = 5 / 100,
      fadd = (+), fsub = (-), fmul = (*), fdiv = (/), fgt = (\<lambda>a b. b < a),
      storePut = (\<lambda>bs. Inr (spell bs, of_nat (length bs)))\<rparr>"

text \<open>A directory \<^verbatim>\<open>/a\<close> holding one regular file \<^verbatim>\<open>/a/f\<close> of three bytes.\<close>

definition visit_root :: "string \<Rightarrow> visit" where
  "visit_root r =
     \<lparr>v_path = r, v_err = None, v_symlink = False, v_readlink = None, v_header = None,
      v_size = 4096, v_writeHeader = (\<lambda>name. ([], None)), v_reg = False, v_open = None,
      v_copy = ([], None)\<rparr>"

definition visit_file :: "string \<Rightarrow> byte list \<Rightarrow> visit" where
  "visit_file p body =
     \<lparr>v_path = p, v_err = None, v_symlink = False, v_readlink = None, v_header = None,
      v_size = of_nat (length body), v_writeHeader = (\<lambda>name. (map (\<lambda>c. of_nat (of_char c)) name, None)),
      v_reg = True, v_open = None, v_copy = (body, None)\<rparr>"

definition fs_a :: "string \<Rightarrow> visit list" where
  "fs_a r =
     (if r = ''/a'' then [visit_root ''/a'', visit_file ''/a/f'' [1, 2, 3]]
      else if r = ''/bad'' then [(visit_root r)\<lparr>v_err := Some (OtherError ''lstat'')\<rparr>]
      else [visit_root r])"

definition task_a :: "64 word \<Rightarrow> string list \<Rightarrow> rootfsProcessor" where
  "task_a m rs = \<lparr>rp_maxLayerSize = m, rp_rootfses = rs, rp_diffID = [], rp_layerDesc = []\<rparr>"

text \<open>
  A build of the two rootfses \<^verbatim>\<open>/b\<close> and \<^verbatim>\<open>/c\<close>, one per layer, in
  which the pool completes the second task first.
\<close>

definition base_layer :: descriptor where
  "base_layer = \<lparr>MediaType = MediaTypeImageLayerGzip, Digest = ''base'', Size = 7\<rparr>"

definition world_a :: world where
  "world_a =
     \<lparr>w_args = [''docker://base'', ''rootfses''], w_ociDir = ''oci'', w_tag = ''octoci'',
      w_dirsPerBlob = 1, w_maxLayerSize = 0,
      w_readFile = Inr (''/b'' @ [CHR 0x0A] @ ''/c''), w_trimSpace = (\<lambda>x. x),
      w_skopeo = None, w_openLayout = None, w_abs = Inr, w_fs = fs_a,
      w_sched = [1, 0], w_cancel = (\<lambda>i. 0),
      w_resolve = Inr [\<lparr>MediaType = MediaTypeImageManifest, Digest = ''m0'', Size = 1\<rparr>],
      w_manifest = (\<lambda>d. Inr (Some \<lparr>m_Config = \<lparr>MediaType = MediaTypeImageConfig, Digest = ''c0'', Size = 1\<rparr>,
                                      m_Layers = [base_layer]\<rparr>)),
      w_image = (\<lambda>d. Inr (Some \<lparr>i_DiffIDs = [''base-diff'']\<rparr>)),
      w_putConfig = (\<lambda>c. Inr (''c1'', 2)), w_putManifest = (\<lambda>m. Inr (''m1'', 3)),
      w_updateReference = None\<rparr>"

section \<open>Properties\<close>

subsection \<open>The stores stay aligned\<close>

lemma wf_start: "wf producer_start"
  by (simp add: wf_def producer_start_def new_tw_def send_def new_digester_def new_gz_def
      new_pipe_def empty_state_def log_ev_def)

lemma wf_log_ev: "wf (log_ev e s) = wf s"
  by (simp add: wf_def log_ev_def)

lemma wf_mw_Write: "wf s \<Longrightarrow> t < length (ch s) \<Longrightarrow> wf (mw_Write t p s)"
  by (auto simp add: wf_def mw_Write_def Let_def nth_list_update)

lemma ch_mw_Write: "ch (mw_Write t p s) = ch s"
  by (simp add: mw_Write_def Let_def)

lemma wf_bothCompressed_Write: "wf s \<Longrightarrow> wf (snd (bothCompressed_Write w p s))"
  by (auto simp add: wf_def bothCompressed_Write_def Let_def nth_list_update)

lemma wf_gz_Flush: "wf s \<Longrightarrow> g < length (ch s) \<Longrightarrow> wf (snd (gz_Flush L g s))"
  by (auto simp add: wf_def gz_Flush_def bothCompressed_Write_def Let_def nth_list_update log_ev_def)

lemma wf_gz_Close: "wf s \<Longrightarrow> g < length (ch s) \<Longrightarrow> wf (gz_Close L g s)"
  by (auto simp add: wf_def gz_Close_def bothCompressed_Write_def Let_def nth_list_update log_ev_def)

lemma wf_tw_Close: "wf s \<Longrightarrow> t < length (ch s) \<Longrightarrow> wf (tw_Close t s)"
  by (auto simp add: wf_def tw_Close_def mw_Write_def Let_def nth_list_update log_ev_def)

lemma wf_pipe_close: "wf s \<Longrightarrow> wf (pipe_close st w s)"
  by (auto simp add: wf_def pipe_close_def)

lemma wf_fresh: "wf s \<Longrightarrow> wf (send (new_tw (new_digester (new_gz (reset_compressed (reset_uncompressed (new_pipe s)))))))"
  by (auto simp add: wf_def send_def new_tw_def new_digester_def new_gz_def reset_compressed_def
      reset_uncompressed_def new_pipe_def log_ev_def nth_append)

lemma wf_writer_Close: "wf s \<Longrightarrow> wf (writer_Close w s)"
  by (simp add: writer_Close_def wf_log_ev wf_pipe_close)

lemma wf_writer_CloseWithError: "wf s \<Longrightarrow> wf (writer_CloseWithError e w s)"
  by (simp add: writer_CloseWithError_def wf_log_ev wf_pipe_close)

lemma wf_pos: "wf s \<Longrightarrow> 0 < length (ch s)"
  by (simp add: wf_def)

lemma wf_cur: "wf s \<Longrightarrow> tw s < length (ch s) \<and> gzw s < length (ch s) \<and> writer s < length (ch s) \<and> diffID s < length (ch s)"
  by (simp add: wf_def)

lemma ch_tw_Close: "ch (tw_Close t s) = ch s"
  by (simp add: tw_Close_def mw_Write_def Let_def log_ev_def)

lemma ch_gz_Close: "ch (gz_Close L g s) = ch s"
  by (simp add: gz_Close_def bothCompressed_Write_def Let_def log_ev_def)

lemma ch_writer_Close: "ch (writer_Close w s) = ch s"
  by (simp add: writer_Close_def pipe_close_def log_ev_def)

lemma wf_split: "wf s \<Longrightarrow> wf (split L s)"
proof -
  assume a: "wf s"
  let ?s1 = "tw_Close (tw s) s"
  let ?s2 = "gz_Close L (gzw ?s1) ?s1"
  let ?s3 = "writer_Close (writer ?s2) ?s2"
  have 1: "wf ?s1" using a by (simp add: wf_tw_Close wf_cur)
  then have 2: "wf ?s2" by (simp add: wf_gz_Close wf_cur)
  then have 3: "wf ?s3" by (rule wf_writer_Close)
  show ?thesis unfolding split_def Let_def by (rule wf_fresh [OF 3])
qed

lemma wf_size_check: "wf s \<Longrightarrow> wf (snd (size_check L m v s))"
proof -
  assume a: "wf s"
  have f: "wf (snd (gz_Flush L (gzw s) s))" using a by (simp add: wf_gz_Flush wf_cur)
  show ?thesis
    using a f by (auto simp add: size_check_def wf_split split: prod.splits option.splits)
qed

lemma wf_tw_WriteHeader: "wf s \<Longrightarrow> wf (snd (tw_WriteHeader v name s))"
  by (auto simp add: wf_def tw_WriteHeader_def mw_Write_def Let_def nth_list_update log_ev_def split: prod.splits)

lemma wf_copy_file: "wf s \<Longrightarrow> wf (snd (copy_file v s))"
  by (auto simp add: wf_def copy_file_def mw_Write_def Let_def nth_list_update log_ev_def split: prod.splits)

lemma wf_write_entry: "wf s \<Longrightarrow> wf (snd (write_entry r v s))"
proof -
  assume a: "wf s"
  have h: "wf (snd (tw_WriteHeader v (drop (length r) (v_path v)) s))" using a by (rule wf_tw_WriteHeader)
  then have c: "wf (snd (copy_file v (snd (tw_WriteHeader v (drop (length r) (v_path v)) s))))" by (rule wf_copy_file)
  show ?thesis using h c
    by (auto simp add: write_entry_def split: prod.splits option.splits)
qed

lemma wf_handler: "wf s \<Longrightarrow> wf (snd (handler L m r c v s))"
proof -
  assume a: "wf s"
  have h: "wf (snd (size_check L m v s))" using a by (rule wf_size_check)
  then have c: "wf (snd (write_entry r v (snd (size_check L m v s))))" by (rule wf_write_entry)
  show ?thesis using a h c
    by (auto simp add: handler_def split: prod.splits option.splits)
qed

lemma wf_walk: "wf s \<Longrightarrow> wf (snd (snd (walk L m r vs c s)))"
proof (induction vs arbitrary: c s)
  case Nil
  then show ?case by simp
next
  case (Cons v vs)
  have h: "wf (snd (handler L m r (ctx_done c) v s))" using Cons.prems by (rule wf_handler)
  show ?case using h Cons.IH
    by (auto split: prod.splits option.splits)
qed

lemma wf_walk_all: "wf s \<Longrightarrow> wf (snd (walk_all L m fs rs c s))"
proof (induction rs arbitrary: c s)
  case Nil
  then show ?case by simp
next
  case (Cons r rs)
  have h: "wf (snd (snd (walk L m r (fs r) c s)))" using Cons.prems by (rule wf_walk)
  show ?case using h Cons.IH
    by (auto split: prod.splits option.splits simp: wf_writer_CloseWithError)
qed

lemma wf_producer_finish: "wf s \<Longrightarrow> wf (producer_finish L s)"
proof -
  assume a: "wf s"
  let ?s1 = "tw_Close (tw s) s"
  let ?s2 = "gz_Close L (gzw ?s1) ?s1"
  let ?s3 = "writer_Close (writer ?s2) ?s2"
  let ?s4 = "tw_Close 0 ?s3"
  let ?s5 = "log_ev EvCloseChannel (?s4\<lparr>ch_closed := True\<rparr>)"
  let ?s6 = "gz_Close L 0 ?s5"
  have 1: "wf ?s1" using a by (simp add: wf_tw_Close wf_cur)
  then have 2: "wf ?s2" by (simp add: wf_gz_Close wf_cur)
  then have 3: "wf ?s3" by (rule wf_writer_Close)
  have 4: "wf ?s4" by (rule wf_tw_Close [OF 3 wf_pos [OF 3]])
  then have 5: "wf ?s5" by (simp add: wf_def log_ev_def)
  have 6: "wf ?s6" by (rule wf_gz_Close [OF 5 wf_pos [OF 5]])
  show ?thesis unfolding producer_finish_def Let_def by (rule wf_writer_Close [OF 6])
qed

lemma wf_producer: "wf (producer L m fs rs c)"
  unfolding producer_def by (intro wf_producer_finish wf_walk_all wf_start)

subsection \<open>What each operation leaves unchanged\<close>

lemma length_zeros [simp]: "length (zeros n) = n"
  by (simp add: zeros_def)

lemma zeros_0 [simp]: "zeros 0 = []"
  by (simp add: zeros_def)

lemma log_ev_frame [simp]:
  "pipes (log_ev e s) = pipes s" "gzs (log_ev e s) = gzs s" "digs (log_ev e s) = digs s"
  "tws (log_ev e s) = tws s" "writer (log_ev e s) = writer s" "gzw (log_ev e s) = gzw s"
  "diffID (log_ev e s) = diffID s" "tw (log_ev e s) = tw s"
  "uncompressedCounter (log_ev e s) = uncompressedCounter s"
  "compressedCounter (log_ev e s) = compressedCounter s"
  "ch (log_ev e s) = ch s" "ch_closed (log_ev e s) = ch_closed s"
  "trace (log_ev e s) = trace s @ [e]"
  by (simp_all add: log_ev_def)

lemma bothCompressed_Write_frame [simp]:
  "gzs (snd (bothCompressed_Write w p s)) = gzs s"
  "digs (snd (bothCompressed_Write w p s)) = digs s"
  "tws (snd (bothCompressed_Write w p s)) = tws s"
  "writer (snd (bothCompressed_Write w p s)) = writer s"
  "gzw (snd (bothCompressed_Write w p s)) = gzw s"
  "diffID (snd (bothCompressed_Write w p s)) = diffID s"
  "tw (snd (bothCompressed_Write w p s)) = tw s"
  "uncompressedCounter (snd (bothCompressed_Write w p s)) = uncompressedCounter s"
  "ch (snd (bothCompressed_Write w p s)) = ch s"
  "ch_closed (snd (bothCompressed_Write w p s)) = ch_closed s"
  "trace (snd (bothCompressed_Write w p s)) = trace s"
  "compressedCounter (snd (bothCompressed_Write w p s)) = compressedCounter s + of_nat (length p)"
  "length (pipes (snd (bothCompressed_Write w p s))) = length (pipes s)"
  by (simp_all add: bothCompressed_Write_def wc_Write_def Let_def)

lemma bothCompressed_Write_pipes:
  "pipes (snd (bothCompressed_Write w p s)) =
     (if p_status (pipes s ! w) = PipeOpen
      then (pipes s)[w := (pipes s ! w)\<lparr>p_bytes := p_bytes (pipes s ! w) @ p\<rparr>] else pipes s)"
  "fst (bothCompressed_Write w p s) = (if p_status (pipes s ! w) = PipeOpen then None else Some ErrClosedPipe)"
  by (simp_all add: bothCompressed_Write_def wc_Write_def Let_def)

lemma gz_Flush_frame [simp]:
  "digs (snd (gz_Flush L g s)) = digs s"
  "tws (snd (gz_Flush L g s)) = tws s"
  "writer (snd (gz_Flush L g s)) = writer s"
  "gzw (snd (gz_Flush L g s)) = gzw s"
  "diffID (snd (gz_Flush L g s)) = diffID s"
  "tw (snd (gz_Flush L g s)) = tw s"
  "uncompressedCounter (snd (gz_Flush L g s)) = uncompressedCounter s"
  "ch (snd (gz_Flush L g s)) = ch s"
  "ch_closed (snd (gz_Flush L g s)) = ch_closed s"
  "trace (snd (gz_Flush L g s)) = trace s @ [EvFlush g]"
  "length (pipes (snd (gz_Flush L g s))) = length (pipes s)"
  "length (gzs (snd (gz_Flush L g s))) = length (gzs s)"
  by (simp_all add: gz_Flush_def Let_def)

lemma gz_Close_frame [simp]:
  "digs (gz_Close L g s) = digs s"
  "tws (gz_Close L g s) = tws s"
  "writer (gz_Close L g s) = writer s"
  "gzw (gz_Close L g s) = gzw s"
  "diffID (gz_Close L g s) = diffID s"
  "tw (gz_Close L g s) = tw s"
  "uncompressedCounter (gz_Close L g s) = uncompressedCounter s"
  "ch (gz_Close L g s) = ch s"
  "ch_closed (gz_Close L g s) = ch_closed s"
  "trace (gz_Close L g s) = trace s @ [EvGzClose g]"
  "length (pipes (gz_Close L g s)) = length (pipes s)"
  "length (gzs (gz_Close L g s)) = length (gzs s)"
  by (simp_all add: gz_Close_def Let_def)

lemma mw_Write_frame [simp]:
  "pipes (mw_Write t p s) = pipes s"
  "tws (mw_Write t p s) = tws s"
  "writer (mw_Write t p s) = writer s"
  "gzw (mw_Write t p s) = gzw s"
  "diffID (mw_Write t p s) = diffID s"
  "tw (mw_Write t p s) = tw s"
  "compressedCounter (mw_Write t p s) = compressedCounter s"
  "ch (mw_Write t p s) = ch s"
  "ch_closed (mw_Write t p s) = ch_closed s"
  "trace (mw_Write t p s) = trace s"
  "uncompressedCounter (mw_Write t p s) = uncompressedCounter s + of_nat (length p)"
  "digs (mw_Write t p s) = (digs s)[tw_dig (tws s ! t) := digs s ! tw_dig (tws s ! t) @ p]"
  "gzs (mw_Write t p s) =
     (gzs s)[tw_gz (tws s ! t) := (gzs s ! tw_gz (tws s ! t))\<lparr>gz_in := gz_in (gzs s ! tw_gz (tws s ! t)) @ p\<rparr>]"
  by (simp_all add: mw_Write_def wc_Write_def Let_def)

lemma tw_Close_frame [simp]:
  "pipes (tw_Close t s) = pipes s"
  "writer (tw_Close t s) = writer s"
  "gzw (tw_Close t s) = gzw s"
  "diffID (tw_Close t s) = diffID s"
  "tw (tw_Close t s) = tw s"
  "compressedCounter (tw_Close t s) = compressedCounter s"
  "ch (tw_Close t s) = ch s"
  "ch_closed (tw_Close t s) = ch_closed s"
  "trace (tw_Close t s) = trace s @ [EvTwClose t]"
  "length (tws (tw_Close t s)) = length (tws s)"
  "length (digs (tw_Close t s)) = length (digs s)"
  "length (gzs (tw_Close t s)) = length (gzs s)"
  by (simp_all add: tw_Close_def Let_def)

lemma tw_Close_digs:
  "digs (tw_Close t s) =
     (if tw_closed (tws s ! t) then digs s
      else (digs s)[tw_dig (tws s ! t) := digs s ! tw_dig (tws s ! t) @ zeros (tw_pad (tws s ! t)) @ zeros 1024])"
  by (simp add: tw_Close_def Let_def)

lemma pipe_close_frame [simp]:
  "gzs (pipe_close st w s) = gzs s" "digs (pipe_close st w s) = digs s"
  "tws (pipe_close st w s) = tws s" "writer (pipe_close st w s) = writer s"
  "gzw (pipe_close st w s) = gzw s" "diffID (pipe_close st w s) = diffID s"
  "tw (pipe_close st w s) = tw s"
  "uncompressedCounter (pipe_close st w s) = uncompressedCounter s"
  "compressedCounter (pipe_close st w s) = compressedCounter s"
  "ch (pipe_close st w s) = ch s" "ch_closed (pipe_close st w s) = ch_closed s"
  "trace (pipe_close st w s) = trace s"
  "length (pipes (pipe_close st w s)) = length (pipes s)"
  by (simp_all add: pipe_close_def)

lemma writer_Close_frame [simp]:
  "gzs (writer_Close w s) = gzs s" "digs (writer_Close w s) = digs s"
  "tws (writer_Close w s) = tws s" "writer (writer_Close w s) = writer s"
  "gzw (writer_Close w s) = gzw s" "diffID (writer_Close w s) = diffID s"
  "tw (writer_Close w s) = tw s"
  "uncompressedCounter (writer_Close w s) = uncompressedCounter s"
  "compressedCounter (writer_Close w s) = compressedCounter s"
  "ch (writer_Close w s) = ch s" "ch_closed (writer_Close w s) = ch_closed s"
  "trace (writer_Close w s) = trace s @ [EvWriterClose w]"
  "pipes (writer_Close w s) = pipes (pipe_close PipeEOF w s)"
  by (simp_all add: writer_Close_def)

lemma writer_CloseWithError_frame [simp]:
  "gzs (writer_CloseWithError e w s) = gzs s" "digs (writer_CloseWithError e w s) = digs s"
  "tws (writer_CloseWithError e w s) = tws s" "writer (writer_CloseWithError e w s) = writer s"
  "gzw (writer_CloseWithError e w s) = gzw s" "diffID (writer_CloseWithError e w s) = diffID s"
  "tw (writer_CloseWithError e w s) = tw s"
  "uncompressedCounter (writer_CloseWithError e w s) = uncompressedCounter s"
  "compressedCounter (writer_CloseWithError e w s) = compressedCounter s"
  "ch (writer_CloseWithError e w s) = ch s" "ch_closed (writer_CloseWithError e w s) = ch_closed s"
  "trace (writer_CloseWithError e w s) = trace s @ [EvCloseWithError w e]"
  "pipes (writer_CloseWithError e w s) = pipes (pipe_close (PipeErr e) w s)"
  by (simp_all add: writer_CloseWithError_def)

lemma tw_WriteHeader_frame [simp]:
  "pipes (snd (tw_WriteHeader v name s)) = pipes s"
  "writer (snd (tw_WriteHeader v name s)) = writer s"
  "gzw (snd (tw_WriteHeader v name s)) = gzw s"
  "diffID (snd (tw_WriteHeader v name s)) = diffID s"
  "tw (snd (tw_WriteHeader v name s)) = tw s"
  "compressedCounter (snd (tw_WriteHeader v name s)) = compressedCounter s"
  "ch (snd (tw_WriteHeader v name s)) = ch s"
  "ch_closed (snd (tw_WriteHeader v name s)) = ch_closed s"
  "trace (snd (tw_WriteHeader v name s)) = trace s @ [EvWriteHeader (tw s) name]"
  "length (tws (snd (tw_WriteHeader v name s))) = length (tws s)"
  "length (digs (snd (tw_WriteHeader v name s))) = length (digs s)"
  "length (gzs (snd (tw_WriteHeader v name s))) = length (gzs s)"
  by (simp_all add: tw_WriteHeader_def Let_def split: prod.splits)

lemma copy_file_frame [simp]:
  "pipes (snd (copy_file v s)) = pipes s"
  "tws (snd (copy_file v s)) = tws s"
  "writer (snd (copy_file v s)) = writer s"
  "gzw (snd (copy_file v s)) = gzw s"
  "diffID (snd (copy_file v s)) = diffID s"
  "tw (snd (copy_file v s)) = tw s"
  "compressedCounter (snd (copy_file v s)) = compressedCounter s"
  "ch (snd (copy_file v s)) = ch s"
  "ch_closed (snd (copy_file v s)) = ch_closed s"
  "trace (snd (copy_file v s)) = trace s @ [EvCopy (tw s)]"
  "length (digs (snd (copy_file v s))) = length (digs s)"
  "length (gzs (snd (copy_file v s))) = length (gzs s)"
  by (simp_all add: copy_file_def Let_def split: prod.splits)

lemma write_entry_cases:
  "snd (write_entry r v s) = snd (tw_WriteHeader v (drop (length r) (v_path v)) s) \<or>
   snd (write_entry r v s) = snd (copy_file v (snd (tw_WriteHeader v (drop (length r) (v_path v)) s)))"
  by (auto simp add: write_entry_def split: prod.splits option.splits)

lemma write_entry_frame [simp]:
  "pipes (snd (write_entry r v s)) = pipes s"
  "writer (snd (write_entry r v s)) = writer s"
  "gzw (snd (write_entry r v s)) = gzw s"
  "diffID (snd (write_entry r v s)) = diffID s"
  "tw (snd (write_entry r v s)) = tw s"
  "compressedCounter (snd (write_entry r v s)) = compressedCounter s"
  "ch (snd (write_entry r v s)) = ch s"
  "ch_closed (snd (write_entry r v s)) = ch_closed s"
  "length (tws (snd (write_entry r v s))) = length (tws s)"
  "length (digs (snd (write_entry r v s))) = length (digs s)"
  "length (gzs (snd (write_entry r v s))) = length (gzs s)"
  using write_entry_cases [of r v s] by auto

subsection \<open>The unbounded budget\<close>

lemma size_check_unbounded [simp]: "size_check L 0 v s = (None, s)"
  by (simp add: size_check_def)

lemma size_check_first [simp]: "uncompressedCounter s = 0 \<Longrightarrow> size_check L m v s = (None, s)"
  by (simp add: size_check_def)

lemma handler_cases:
  "snd (handler L m r b v s) = s \<or>
   snd (handler L m r b v s) = snd (size_check L m v s) \<or>
   snd (handler L m r b v s) = snd (write_entry r v (snd (size_check L m v s)))"
  by (auto simp add: handler_def split: prod.splits option.splits)

lemma ch_handler_unbounded: "ch (snd (handler L 0 r b v s)) = ch s"
  using handler_cases [of L 0 r b v s] by auto

lemma ch_walk_unbounded: "ch (snd (snd (walk L 0 r vs c s))) = ch s"
proof (induction vs arbitrary: c s)
  case Nil
  show ?case by simp
next
  case (Cons v vs)
  obtain e s1 where h: "handler L 0 r (ctx_done c) v s = (e, s1)"
    by (cases "handler L 0 r (ctx_done c) v s")
  from ch_handler_unbounded [of L r "ctx_done c" v s] h have "ch s1 = ch s" by simp
  then show ?case using h Cons.IH [of "ctx_tick c" s1]
    by (cases e) simp_all
qed

lemma ch_walk_all_unbounded: "ch (snd (walk_all L 0 fs rs c s)) = ch s"
proof (induction rs arbitrary: c s)
  case Nil
  show ?case by simp
next
  case (Cons r rs)
  obtain e c1 s1 where h: "walk L 0 r (fs r) c s = (e, c1, s1)"
    by (cases "walk L 0 r (fs r) c s")
  from ch_walk_unbounded [of L r "fs r" c s] h have "ch s1 = ch s" by simp
  then show ?case using h Cons.IH [of c1 s1] Cons.IH [of c1 "writer_CloseWithError (the e) (writer s1) s1"]
    by (cases e) simp_all
qed

lemma ch_producer_finish [simp]: "ch (producer_finish L s) = ch s"
  by (simp add: producer_finish_def Let_def)

lemma ch_producer_start [simp]: "ch producer_start = [(0, 0)]"
  by (simp add: producer_start_def new_tw_def send_def new_digester_def new_gz_def new_pipe_def
      empty_state_def log_ev_def)

lemma ch_producer_unbounded: "ch (producer L 0 fs rootfses c) = [(0, 0)]"
  by (simp add: producer_def ch_walk_all_unbounded)

text \<open>
  Claim C4. With a maximum layer size of 0 the producer sends exactly one handle
  on the channel, the one sent before the first walk, whatever the rootfses hold
  and whether or not the walks fail or are cancelled.
\<close>

theorem unbounded_budget_one_segment:
  "ch (producer L 0 fs rootfses c) = [(0, 0)] \<and> length (ch (producer L 0 fs rootfses c)) = 1"
  by (simp add: ch_producer_unbounded)

subsection \<open>The consumer\<close>

lemma reach_wf: "reach L m s \<Longrightarrow> wf s"
  by (induction rule: reach.induct) (simp_all add: wf_start wf_handler wf_writer_CloseWithError)

lemma consumer_appends:
  "consumer L s hs rp = (e, rp') \<Longrightarrow>
   \<exists>n\<le>length hs.
     rp_diffID rp' = rp_diffID rp @ map (\<lambda>h. sha256 L (digs s ! snd h)) (take n hs) \<and>
     length (rp_layerDesc rp') = length (rp_layerDesc rp) + n \<and>
     take (length (rp_layerDesc rp)) (rp_layerDesc rp') = rp_layerDesc rp \<and>
     (\<forall>k<n. PutBlob L (pipes s ! fst (hs ! k)) =
        Inr (Digest (rp_layerDesc rp' ! (length (rp_layerDesc rp) + k)),
             Size (rp_layerDesc rp' ! (length (rp_layerDesc rp) + k)))) \<and>
     (e = None \<longleftrightarrow> n = length hs)"
proof (induction hs arbitrary: rp)
  case Nil
  then show ?case by auto
next
  case (Cons h hs)
  obtain r d where h: "h = (r, d)" by (cases h)
  show ?case
  proof (cases "PutBlob L (pipes s ! r)")
    case (Inl x)
    with Cons.prems h have "e = Some x" "rp' = rp" by auto
    then show ?thesis by (intro exI [of _ 0]) simp
  next
    case (Inr y)
    obtain dg sz where y: "y = (dg, sz)" by (cases y)
    let ?rp1 = "rp\<lparr>rp_layerDesc := rp_layerDesc rp @ [\<lparr>MediaType = MediaTypeImageLayerGzip, Digest = dg, Size = sz\<rparr>],
                   rp_diffID := rp_diffID rp @ [sha256 L (digs s ! d)]\<rparr>"
    have c: "consumer L s hs ?rp1 = (e, rp')" using Cons.prems h Inr y by simp
    from Cons.IH [OF c] obtain n where n: "n \<le> length hs"
      "rp_diffID rp' = rp_diffID ?rp1 @ map (\<lambda>h. sha256 L (digs s ! snd h)) (take n hs)"
      "length (rp_layerDesc rp') = length (rp_layerDesc ?rp1) + n"
      "take (length (rp_layerDesc ?rp1)) (rp_layerDesc rp') = rp_layerDesc ?rp1"
      "\<forall>k<n. PutBlob L (pipes s ! fst (hs ! k)) =
        Inr (Digest (rp_layerDesc rp' ! (length (rp_layerDesc ?rp1) + k)),
             Size (rp_layerDesc rp' ! (length (rp_layerDesc ?rp1) + k)))"
      "e = None \<longleftrightarrow> n = length hs" by blast
    have len: "length (rp_layerDesc rp) < length (rp_layerDesc rp')" using n(3) by simp
    have t1: "take (Suc (length (rp_layerDesc rp))) (rp_layerDesc rp') = rp_layerDesc rp @ [\<lparr>MediaType = MediaTypeImageLayerGzip, Digest = dg, Size = sz\<rparr>]"
      using n(4) by simp
    have nth0: "rp_layerDesc rp' ! length (rp_layerDesc rp) = \<lparr>MediaType = MediaTypeImageLayerGzip, Digest = dg, Size = sz\<rparr>"
      using t1 len by (metis lessI nth_append_length nth_take)
    have t0: "take (length (rp_layerDesc rp)) (rp_layerDesc rp') = rp_layerDesc rp"
      using arg_cong [OF t1, of "take (length (rp_layerDesc rp))"] by simp
    show ?thesis
    proof (intro exI [of _ "Suc n"] conjI allI impI)
      show "Suc n \<le> length (h # hs)" using n(1) by simp
      show "rp_diffID rp' = rp_diffID rp @ map (\<lambda>h. sha256 L (digs s ! snd h)) (take (Suc n) (h # hs))"
        using n(2) h by simp
      show "length (rp_layerDesc rp') = length (rp_layerDesc rp) + Suc n" using n(3) by simp
      show "take (length (rp_layerDesc rp)) (rp_layerDesc rp') = rp_layerDesc rp" by (rule t0)
      show "(e = None) = (Suc n = length (h # hs))" using n(6) by simp
    next
      fix k assume k: "k < Suc n"
      show "PutBlob L (pipes s ! fst ((h # hs) ! k)) =
        Inr (Digest (rp_layerDesc rp' ! (length (rp_layerDesc rp) + k)),
             Size (rp_layerDesc rp' ! (length (rp_layerDesc rp) + k)))"
      proof (cases k)
        case 0
        then show ?thesis using nth0 Inr y h by simp
      next
        case (Suc j)
        then show ?thesis using n(5) k by simp
      qed
    qed
  qed
qed


lemma consumer_stops:
  "consumer L s hs rp = (Some x, rp') \<Longrightarrow>
   length (rp_diffID rp') - length (rp_diffID rp) < length hs \<and>
   PutBlob L (pipes s ! fst (hs ! (length (rp_diffID rp') - length (rp_diffID rp)))) = Inl x"
proof (induction hs arbitrary: rp)
  case Nil
  then show ?case by simp
next
  case (Cons h hs)
  obtain r d where h: "h = (r, d)" by (cases h)
  show ?case
  proof (cases "PutBlob L (pipes s ! r)")
    case (Inl y)
    with Cons.prems h have "x = y" "rp' = rp" by auto
    then show ?thesis using Inl h by simp
  next
    case (Inr y)
    obtain dg sz where y: "y = (dg, sz)" by (cases y)
    let ?rp1 = "rp\<lparr>rp_layerDesc := rp_layerDesc rp @ [\<lparr>MediaType = MediaTypeImageLayerGzip, Digest = dg, Size = sz\<rparr>],
                   rp_diffID := rp_diffID rp @ [sha256 L (digs s ! d)]\<rparr>"
    have c: "consumer L s hs ?rp1 = (Some x, rp')" using Cons.prems h Inr y by simp
    from consumer_appends [OF c] obtain n where
      "rp_diffID rp' = rp_diffID ?rp1 @ map (\<lambda>h. sha256 L (digs s ! snd h)) (take n hs)" by blast
    then have ge: "length (rp_diffID ?rp1) \<le> length (rp_diffID rp')" by simp
    have l1: "length (rp_diffID ?rp1) = Suc (length (rp_diffID rp))" by simp
    have eq: "length (rp_diffID rp') - length (rp_diffID rp)
                = Suc (length (rp_diffID rp') - length (rp_diffID ?rp1))"
      using ge l1 by arith
    from Cons.IH [OF c] show ?thesis unfolding eq by simp
  qed
qed

lemma consumer_keeps:
  "consumer L s hs rp = (e, rp') \<Longrightarrow>
   rp_rootfses rp' = rp_rootfses rp \<and> rp_maxLayerSize rp' = rp_maxLayerSize rp \<and>
   set (rp_layerDesc rp') \<subseteq> set (rp_layerDesc rp) \<union> {d. MediaType d = MediaTypeImageLayerGzip}"
proof (induction hs arbitrary: rp)
  case Nil
  then show ?case by auto
next
  case (Cons h hs)
  obtain r d where h: "h = (r, d)" by (cases h)
  show ?case
  proof (cases "PutBlob L (pipes s ! r)")
    case (Inl y)
    with Cons.prems h have "rp' = rp" by auto
    then show ?thesis by auto
  next
    case (Inr y)
    obtain dg sz where y: "y = (dg, sz)" by (cases y)
    let ?rp1 = "rp\<lparr>rp_layerDesc := rp_layerDesc rp @ [\<lparr>MediaType = MediaTypeImageLayerGzip, Digest = dg, Size = sz\<rparr>],
                   rp_diffID := rp_diffID rp @ [sha256 L (digs s ! d)]\<rparr>"
    have c: "consumer L s hs ?rp1 = (e, rp')" using Cons.prems h Inr y by simp
    from Cons.IH [OF c] show ?thesis by auto
  qed
qed

text \<open>
  Claim C6. \<^verbatim>\<open>addBlob\<close> commits the handles in the order they were sent, up
  to the first whose \<^verbatim>\<open>PutBlob\<close> fails: with \<open>n\<close> the number committed,
  it has appended exactly \<open>n\<close> diff-ids and exactly \<open>n\<close> descriptors to the
  task, after the ones that were there; the \<open>k\<close>-th appended diff-id is the
  digest of the digester of the \<open>k\<close>-th handle, and the \<open>k\<close>-th appended
  descriptor holds what \<^verbatim>\<open>PutBlob\<close> answered for the reader of that same
  handle. It returns no error exactly when every handle was committed (there is
  always at least one); when it returns an error, that is the error of
  \<^verbatim>\<open>PutBlob\<close> on handle \<open>n\<close>, and nothing was appended for it or after it.
  So the two lists have equal length whenever they had before the call, an
  error or not. The descriptors appended are gzip layers, and the task's
  rootfses and size budget are unchanged.
\<close>

theorem addBlob_lists_aligned:
  assumes "addBlob L fs c rp = (e, rp')"
    and "s = producer L (rp_maxLayerSize rp) fs (rp_rootfses rp) c"
  shows "(\<exists>n\<le>length (ch s).
           length (rp_diffID rp') = length (rp_diffID rp) + n \<and>
           length (rp_layerDesc rp') = length (rp_layerDesc rp) + n \<and>
           take (length (rp_diffID rp)) (rp_diffID rp') = rp_diffID rp \<and>
           take (length (rp_layerDesc rp)) (rp_layerDesc rp') = rp_layerDesc rp \<and>
           (\<forall>k<n. rp_diffID rp' ! (length (rp_diffID rp) + k) = sha256 L (digs s ! snd (ch s ! k)) \<and>
                  PutBlob L (pipes s ! fst (ch s ! k)) =
                    Inr (Digest (rp_layerDesc rp' ! (length (rp_layerDesc rp) + k)),
                         Size (rp_layerDesc rp' ! (length (rp_layerDesc rp) + k)))) \<and>
           (e = None \<longleftrightarrow> n = length (ch s)) \<and>
           (\<forall>x. e = Some x \<longrightarrow> n < length (ch s) \<and> PutBlob L (pipes s ! fst (ch s ! n)) = Inl x)) \<and>
         (length (rp_diffID rp) = length (rp_layerDesc rp) \<longrightarrow>
            length (rp_diffID rp') = length (rp_layerDesc rp')) \<and>
         0 < length (ch s) \<and>
         rp_rootfses rp' = rp_rootfses rp \<and> rp_maxLayerSize rp' = rp_maxLayerSize rp \<and>
         set (rp_layerDesc rp') \<subseteq> set (rp_layerDesc rp) \<union> {d. MediaType d = MediaTypeImageLayerGzip}"
proof -
  have c: "consumer L s (ch s) rp = (e, rp')" using assms by (simp add: addBlob_def Let_def)
  from consumer_appends [OF c] obtain n where n: "n \<le> length (ch s)"
    "rp_diffID rp' = rp_diffID rp @ map (\<lambda>h. sha256 L (digs s ! snd h)) (take n (ch s))"
    "length (rp_layerDesc rp') = length (rp_layerDesc rp) + n"
    "take (length (rp_layerDesc rp)) (rp_layerDesc rp') = rp_layerDesc rp"
    "\<forall>k<n. PutBlob L (pipes s ! fst (ch s ! k)) =
        Inr (Digest (rp_layerDesc rp' ! (length (rp_layerDesc rp) + k)),
             Size (rp_layerDesc rp' ! (length (rp_layerDesc rp) + k)))"
    "e = None \<longleftrightarrow> n = length (ch s)" by blast
  have len: "length (rp_diffID rp') = length (rp_diffID rp) + n" using n(1,2) by simp
  have stop: "\<forall>x. e = Some x \<longrightarrow> n < length (ch s) \<and> PutBlob L (pipes s ! fst (ch s ! n)) = Inl x"
  proof (intro allI impI)
    fix x assume "e = Some x"
    with c have "consumer L s (ch s) rp = (Some x, rp')" by simp
    from consumer_stops [OF this] show "n < length (ch s) \<and> PutBlob L (pipes s ! fst (ch s ! n)) = Inl x"
      by (simp add: len)
  qed
  have "\<exists>n\<le>length (ch s).
           length (rp_diffID rp') = length (rp_diffID rp) + n \<and>
           length (rp_layerDesc rp') = length (rp_layerDesc rp) + n \<and>
           take (length (rp_diffID rp)) (rp_diffID rp') = rp_diffID rp \<and>
           take (length (rp_layerDesc rp)) (rp_layerDesc rp') = rp_layerDesc rp \<and>
           (\<forall>k<n. rp_diffID rp' ! (length (rp_diffID rp) + k) = sha256 L (digs s ! snd (ch s ! k)) \<and>
                  PutBlob L (pipes s ! fst (ch s ! k)) =
                    Inr (Digest (rp_layerDesc rp' ! (length (rp_layerDesc rp) + k)),
                         Size (rp_layerDesc rp' ! (length (rp_layerDesc rp) + k)))) \<and>
           (e = None \<longleftrightarrow> n = length (ch s)) \<and>
           (\<forall>x. e = Some x \<longrightarrow> n < length (ch s) \<and> PutBlob L (pipes s ! fst (ch s ! n)) = Inl x)"
    using n stop by (intro exI [of _ n]) (simp add: nth_append)
  moreover have "length (rp_diffID rp) = length (rp_layerDesc rp) \<longrightarrow>
            length (rp_diffID rp') = length (rp_layerDesc rp')"
    using len n(3) by simp
  moreover have "0 < length (ch s)" unfolding assms(2) by (rule wf_pos [OF wf_producer])
  moreover note consumer_keeps [OF c]
  ultimately show ?thesis by blast
qed

subsection \<open>The grouping loop\<close>

lemma Split_nl_nonempty: "Split_nl s \<noteq> []"
  by (induction s) (auto split: list.splits)

lemma group_rootfses_zero:
  "rootfses \<noteq> [] \<Longrightarrow>
   group_rootfses 0 m absf i rootfses tasks = Inl (Panicked ''integer divide by zero'')"
  by (cases rootfses) simp_all

text \<open>
  Claim C9. The grouping loop evaluates \<^verbatim>\<open>i % dirs-per-blob\<close> before anything
  else, with no guard on the flag: when the flag is 0 and the rootfs list is
  not empty, the loop panics with a division by zero at its first iteration.
  \<^verbatim>\<open>strings.Split\<close> never returns an empty list, so a \<^verbatim>\<open>doBuild\<close> that
  gets as far as the loop (two arguments, the list file read, the base image
  imported, the layout opened) panics instead of returning an error; the
  deferred close and garbage collection of the layout still run.
\<close>

theorem doBuild_dirs_per_blob_zero_panics:
  "(rootfses \<noteq> [] \<longrightarrow>
      group_rootfses 0 m absf i rootfses tasks = Inl (Panicked ''integer divide by zero'')) \<and>
   (length (w_args W) = 2 \<and> w_readFile W = Inr raw \<and> w_skopeo W = None \<and>
    w_openLayout W = None \<and> w_dirsPerBlob W = 0 \<longrightarrow>
      doBuild L W = (Panicked ''integer divide by zero'', [OpOpenLayout, OpClose, OpGC]))"
  by (simp add: group_rootfses_zero doBuild_def Split_nl_nonempty)

theorem doBuild_dirs_per_blob_zero_panics_witness:
  "[''/a''] \<noteq> [] \<and>
   group_rootfses 0 0 Inr 0 [''/a''] [] = Inl (Panicked ''integer divide by zero'') \<and>
   length (w_args (world_a\<lparr>w_dirsPerBlob := 0\<rparr>)) = 2 \<and>
   w_readFile (world_a\<lparr>w_dirsPerBlob := 0\<rparr>) = Inr (''/b'' @ [CHR 0x0A] @ ''/c'') \<and>
   w_skopeo (world_a\<lparr>w_dirsPerBlob := 0\<rparr>) = None \<and>
   w_openLayout (world_a\<lparr>w_dirsPerBlob := 0\<rparr>) = None \<and>
   w_dirsPerBlob (world_a\<lparr>w_dirsPerBlob := 0\<rparr>) = 0 \<and>
   doBuild exact_lib (world_a\<lparr>w_dirsPerBlob := 0\<rparr>)
     = (Panicked ''integer divide by zero'', [OpOpenLayout, OpClose, OpGC])"
  using doBuild_dirs_per_blob_zero_panics
    [of "[''/a'']" 0 Inr 0 "[]" "world_a\<lparr>w_dirsPerBlob := 0\<rparr>" "''/b'' @ [CHR 0x0A] @ ''/c''" exact_lib]
  by (simp add: world_a_def)

subsection \<open>The diff-id of a segment\<close>

lemma alloc_frame [simp]:
  "digs (new_pipe s) = digs s" "gzs (new_pipe s) = gzs s" "tws (new_pipe s) = tws s"
  "gzw (new_pipe s) = gzw s" "diffID (new_pipe s) = diffID s" "tw (new_pipe s) = tw s"
  "ch (new_pipe s) = ch s" "writer (new_pipe s) = length (pipes s)"
  "pipes (new_pipe s) = pipes s @ [\<lparr>p_status = PipeOpen, p_bytes = []\<rparr>]"
  "trace (new_pipe s) = trace s @ [EvNewPipe (length (pipes s))]"
  "uncompressedCounter (new_pipe s) = uncompressedCounter s"
  "compressedCounter (new_pipe s) = compressedCounter s"
  "digs (new_gz s) = digs s" "pipes (new_gz s) = pipes s" "tws (new_gz s) = tws s"
  "writer (new_gz s) = writer s" "diffID (new_gz s) = diffID s" "tw (new_gz s) = tw s"
  "ch (new_gz s) = ch s" "gzw (new_gz s) = length (gzs s)"
  "gzs (new_gz s) = gzs s @ [\<lparr>gz_in = [], gz_flushes = [], gz_out = writer s, gz_closed = False\<rparr>]"
  "trace (new_gz s) = trace s @ [EvNewGz (length (gzs s))]"
  "uncompressedCounter (new_gz s) = uncompressedCounter s"
  "compressedCounter (new_gz s) = compressedCounter s"
  "gzs (new_digester s) = gzs s" "pipes (new_digester s) = pipes s" "tws (new_digester s) = tws s"
  "writer (new_digester s) = writer s" "gzw (new_digester s) = gzw s" "tw (new_digester s) = tw s"
  "ch (new_digester s) = ch s" "diffID (new_digester s) = length (digs s)"
  "digs (new_digester s) = digs s @ [[]]"
  "trace (new_digester s) = trace s @ [EvNewDigester (length (digs s))]"
  "uncompressedCounter (new_digester s) = uncompressedCounter s"
  "compressedCounter (new_digester s) = compressedCounter s"
  "gzs (new_tw s) = gzs s" "pipes (new_tw s) = pipes s" "digs (new_tw s) = digs s"
  "writer (new_tw s) = writer s" "gzw (new_tw s) = gzw s" "diffID (new_tw s) = diffID s"
  "ch (new_tw s) = ch s" "tw (new_tw s) = length (tws s)"
  "tws (new_tw s) = tws s @ [\<lparr>tw_gz = gzw s, tw_dig = diffID s, tw_pad = 0, tw_closed = False\<rparr>]"
  "trace (new_tw s) = trace s @ [EvNewTw (length (tws s))]"
  "uncompressedCounter (new_tw s) = uncompressedCounter s"
  "compressedCounter (new_tw s) = compressedCounter s"
  by (simp_all add: new_pipe_def new_gz_def new_digester_def new_tw_def log_ev_def)

lemma send_reset_frame [simp]:
  "gzs (send s) = gzs s" "pipes (send s) = pipes s" "digs (send s) = digs s" "tws (send s) = tws s"
  "writer (send s) = writer s" "gzw (send s) = gzw s" "diffID (send s) = diffID s" "tw (send s) = tw s"
  "ch (send s) = ch s @ [(writer s, diffID s)]"
  "trace (send s) = trace s @ [EvSend (writer s) (diffID s)]"
  "uncompressedCounter (send s) = uncompressedCounter s"
  "compressedCounter (send s) = compressedCounter s"
  "gzs (reset_uncompressed s) = gzs s" "pipes (reset_uncompressed s) = pipes s"
  "digs (reset_uncompressed s) = digs s" "tws (reset_uncompressed s) = tws s"
  "writer (reset_uncompressed s) = writer s" "gzw (reset_uncompressed s) = gzw s"
  "diffID (reset_uncompressed s) = diffID s" "tw (reset_uncompressed s) = tw s"
  "ch (reset_uncompressed s) = ch s"
  "trace (reset_uncompressed s) = trace s @ [EvResetUncompressed]"
  "uncompressedCounter (reset_uncompressed s) = 0"
  "compressedCounter (reset_uncompressed s) = compressedCounter s"
  "gzs (reset_compressed s) = gzs s" "pipes (reset_compressed s) = pipes s"
  "digs (reset_compressed s) = digs s" "tws (reset_compressed s) = tws s"
  "writer (reset_compressed s) = writer s" "gzw (reset_compressed s) = gzw s"
  "diffID (reset_compressed s) = diffID s" "tw (reset_compressed s) = tw s"
  "ch (reset_compressed s) = ch s"
  "trace (reset_compressed s) = trace s @ [EvResetCompressed]"
  "uncompressedCounter (reset_compressed s) = uncompressedCounter s"
  "compressedCounter (reset_compressed s) = 0"
  by (simp_all add: send_def reset_uncompressed_def reset_compressed_def log_ev_def)

lemma split_digs: "digs (split L s) = digs (tw_Close (tw s) s) @ [[]]"
  by (simp add: split_def Let_def)

lemma split_diffID: "diffID (split L s) = length (digs s)"
  by (simp add: split_def Let_def)

lemma wf_nth: "wf s \<Longrightarrow> k < length (ch s) \<Longrightarrow>
  ch s ! k = (k, k) \<and> gz_out (gzs s ! k) = k \<and> tw_gz (tws s ! k) = k \<and> tw_dig (tws s ! k) = k \<and>
  digs s ! k = gz_in (gzs s ! k)"
proof -
  assume a: "wf s" and k: "k < length (ch s)"
  from a have c: "ch s = map (\<lambda>i. (i, i)) [0..<length (ch s)]" by (simp add: wf_def)
  have "ch s ! k = map (\<lambda>i. (i, i)) [0..<length (ch s)] ! k" using c by simp
  also have "\<dots> = (k, k)" using k by simp
  finally have "ch s ! k = (k, k)" .
  then show ?thesis using a k by (simp add: wf_def)
qed

lemma wf_cur_objs: "wf s \<Longrightarrow> tw_dig (tws s ! tw s) = diffID s \<and> tw_gz (tws s ! tw s) = gzw s \<and> gz_out (gzs s ! gzw s) = writer s"
  by (simp add: wf_def)

lemma wf_distinct: "wf s \<Longrightarrow> distinct (map snd (ch s)) \<and> distinct (map fst (ch s))"
proof -
  assume a: "wf s"
  from a have c: "ch s = map (\<lambda>i. (i, i)) [0..<length (ch s)]" by (simp add: wf_def)
  have "map snd (map (\<lambda>i. (i, i)) [0..<length (ch s)]) = [0..<length (ch s)]"
       "map fst (map (\<lambda>i. (i, i)) [0..<length (ch s)]) = [0..<length (ch s)]"
    by (simp_all add: comp_def map_idI)
  then have "map snd (ch s) = [0..<length (ch s)]" "map fst (ch s) = [0..<length (ch s)]"
    using c by metis+
  then show ?thesis by simp
qed

text \<open>
  Claim C1. For every diff-id \<^verbatim>\<open>addBlob\<close> records, say the \<open>k\<close>-th it
  appends: the \<open>k\<close>-th handle sent is pipe \<open>k\<close> with digester \<open>k\<close>, the
  compressor writing to that pipe and the digester were fed by the same tar
  writer, the digester has taken exactly the bytes written into that compressor,
  and the diff-id is the SHA-256 of these bytes, next to the descriptor of the
  blob read from that pipe. No two handles share a digester or a pipe. In every
  reachable state a write of the current tar writer appends the same bytes to
  the current compressor's input and to the current digester and to no other;
  a split allocates a new, empty digester and leaves the earlier ones as the
  closing of the tar writer left them.
\<close>

theorem diffID_is_digest_of_compressed_bytes:
  assumes "addBlob L fs c rp = (e, rp')"
    and "s = producer L (rp_maxLayerSize rp) fs (rp_rootfses rp) c"
    and "k < length (rp_diffID rp') - length (rp_diffID rp)"
  shows "k < length (ch s) \<and> ch s ! k = (k, k) \<and> gz_out (gzs s ! k) = k \<and>
         tw_gz (tws s ! k) = k \<and> tw_dig (tws s ! k) = k \<and>
         digs s ! k = gz_in (gzs s ! k) \<and>
         rp_diffID rp' ! (length (rp_diffID rp) + k) = sha256 L (gz_in (gzs s ! k)) \<and>
         PutBlob L (pipes s ! k) =
           Inr (Digest (rp_layerDesc rp' ! (length (rp_layerDesc rp) + k)),
                Size (rp_layerDesc rp' ! (length (rp_layerDesc rp) + k))) \<and>
         distinct (map snd (ch s)) \<and> distinct (map fst (ch s)) \<and>
         (reach L m s0 \<longrightarrow>
            digs (mw_Write (tw s0) p s0) = (digs s0)[diffID s0 := digs s0 ! diffID s0 @ p] \<and>
            gzs (mw_Write (tw s0) p s0) =
              (gzs s0)[gzw s0 := (gzs s0 ! gzw s0)\<lparr>gz_in := gz_in (gzs s0 ! gzw s0) @ p\<rparr>] \<and>
            diffID (split L s0) = length (digs s0) \<and>
            digs (split L s0) = digs (tw_Close (tw s0) s0) @ [[]])"
proof -
  have w: "wf s" unfolding assms(2) by (rule wf_producer)
  have c: "consumer L s (ch s) rp = (e, rp')" using assms by (simp add: addBlob_def Let_def)
  from consumer_appends [OF c] obtain n where n: "n \<le> length (ch s)"
    "rp_diffID rp' = rp_diffID rp @ map (\<lambda>h. sha256 L (digs s ! snd h)) (take n (ch s))"
    "\<forall>k<n. PutBlob L (pipes s ! fst (ch s ! k)) =
        Inr (Digest (rp_layerDesc rp' ! (length (rp_layerDesc rp) + k)),
             Size (rp_layerDesc rp' ! (length (rp_layerDesc rp) + k)))" by blast
  have kn: "k < n" using assms(3) n(1,2) by simp
  then have kl: "k < length (ch s)" using n(1) by simp
  note nth = wf_nth [OF w kl]
  have x: "rp_diffID rp' ! (length (rp_diffID rp) + k) = sha256 L (digs s ! snd (ch s ! k)) \<and>
           PutBlob L (pipes s ! fst (ch s ! k)) =
             Inr (Digest (rp_layerDesc rp' ! (length (rp_layerDesc rp) + k)),
                  Size (rp_layerDesc rp' ! (length (rp_layerDesc rp) + k)))"
    using n kn by (simp add: nth_append)
  have ck: "ch s ! k = (k, k)" and dk: "digs s ! k = gz_in (gzs s ! k)" using nth by simp_all
  have d: "rp_diffID rp' ! (length (rp_diffID rp) + k) = sha256 L (gz_in (gzs s ! k))"
    using x by (simp add: ck dk)
  have b: "PutBlob L (pipes s ! k) =
           Inr (Digest (rp_layerDesc rp' ! (length (rp_layerDesc rp) + k)),
                Size (rp_layerDesc rp' ! (length (rp_layerDesc rp) + k)))"
    using x by (simp add: ck)
  have r: "reach L m s0 \<longrightarrow>
            digs (mw_Write (tw s0) p s0) = (digs s0)[diffID s0 := digs s0 ! diffID s0 @ p] \<and>
            gzs (mw_Write (tw s0) p s0) =
              (gzs s0)[gzw s0 := (gzs s0 ! gzw s0)\<lparr>gz_in := gz_in (gzs s0 ! gzw s0) @ p\<rparr>] \<and>
            diffID (split L s0) = length (digs s0) \<and>
            digs (split L s0) = digs (tw_Close (tw s0) s0) @ [[]]"
  proof
    assume "reach L m s0"
    then have "wf s0" by (rule reach_wf)
    from wf_cur_objs [OF this] show "digs (mw_Write (tw s0) p s0) = (digs s0)[diffID s0 := digs s0 ! diffID s0 @ p] \<and>
            gzs (mw_Write (tw s0) p s0) =
              (gzs s0)[gzw s0 := (gzs s0 ! gzw s0)\<lparr>gz_in := gz_in (gzs s0 ! gzw s0) @ p\<rparr>] \<and>
            diffID (split L s0) = length (digs s0) \<and>
            digs (split L s0) = digs (tw_Close (tw s0) s0) @ [[]]"
      by (simp add: split_digs split_diffID)
  qed
  show ?thesis using kl nth d b wf_distinct [OF w] r by blast
qed


lemma pipe_close_pipes:
  "pipes (pipe_close st w s) =
     (if p_status (pipes s ! w) = PipeOpen then (pipes s)[w := (pipes s ! w)\<lparr>p_status := st\<rparr>] else pipes s)"
  by (simp add: pipe_close_def)

lemma gz_Close_pipes:
  "pipes (gz_Close L g s) =
     (if gz_closed (gzs s ! g) then pipes s
      else pipes (snd (bothCompressed_Write (gz_out (gzs s ! g)) (gzCloseOut L (gz_in (gzs s ! g)) (gz_flushes (gzs s ! g))) s)))"
  by (simp add: gz_Close_def Let_def bothCompressed_Write_def)

lemma producer_start_fields [simp]:
  "pipes producer_start = [\<lparr>p_status = PipeOpen, p_bytes = []\<rparr>]"
  "gzs producer_start = [\<lparr>gz_in = [], gz_flushes = [], gz_out = 0, gz_closed = False\<rparr>]"
  "digs producer_start = [[]]"
  "tws producer_start = [\<lparr>tw_gz = 0, tw_dig = 0, tw_pad = 0, tw_closed = False\<rparr>]"
  "writer producer_start = 0" "gzw producer_start = 0" "diffID producer_start = 0" "tw producer_start = 0"
  "uncompressedCounter producer_start = 0" "compressedCounter producer_start = 0"
  "trace producer_start = [EvNewPipe 0, EvNewGz 0, EvNewDigester 0, EvSend 0 0, EvNewTw 0]"
  by (simp_all add: producer_start_def empty_state_def)

lemma tw_Close_gzs:
  "gzs (tw_Close t s) =
     (if tw_closed (tws s ! t) then gzs s
      else (gzs s)[tw_gz (tws s ! t) := (gzs s ! tw_gz (tws s ! t))
             \<lparr>gz_in := gz_in (gzs s ! tw_gz (tws s ! t)) @ zeros (tw_pad (tws s ! t)) @ zeros 1024\<rparr>])"
  by (simp add: tw_Close_def Let_def)

lemma tw_Close_tws:
  "tws (tw_Close t s) =
     (if tw_closed (tws s ! t) then tws s else (tws s)[t := (tws s ! t)\<lparr>tw_pad := 0, tw_closed := True\<rparr>])"
  by (simp add: tw_Close_def Let_def)

lemma gz_Close_gzs:
  "gzs (gz_Close L g s) =
     (if gz_closed (gzs s ! g) then gzs s else (gzs s)[g := (gzs s ! g)\<lparr>gz_closed := True\<rparr>])"
  by (simp add: gz_Close_def Let_def bothCompressed_Write_def)

lemma empty_run_status: "p_status (pipes (producer L m fs [] c) ! 0) = PipeEOF"
  by (simp add: producer_def producer_finish_def Let_def pipe_close_pipes gz_Close_pipes
      bothCompressed_Write_pipes tw_Close_gzs tw_Close_tws gz_Close_gzs)

lemma empty_run_digs: "digs (producer L m fs [] c) = [zeros 1024]"
  by (simp add: producer_def producer_finish_def Let_def tw_Close_digs tw_Close_tws)


lemma exact_lib_simps:
  "sha256 exact_lib = spell" "gzFlushOut exact_lib = copy_out" "gzCloseOut exact_lib = copy_out"
  "storePut exact_lib bs = Inr (spell bs, of_nat (length bs))"
  "f_u64 exact_lib w = of_nat (unat w)" "f_i64 exact_lib w = of_int (sint w)"
  "f_1000 exact_lib = 1000" "f_005 exact_lib = 5 / 100"
  "fadd exact_lib a b = a + b" "fsub exact_lib a b = a - b" "fmul exact_lib a b = a * b"
  "fdiv exact_lib a b = a / b" "fgt exact_lib a b = (b < a)"
  by (simp_all add: exact_lib_def)

theorem diffID_is_digest_of_compressed_bytes_witness:
  "addBlob exact_lib fs_a None (task_a 0 []) =
     (None, (task_a 0 [])\<lparr>rp_layerDesc := [\<lparr>MediaType = MediaTypeImageLayerGzip,
        Digest = spell (copy_out (zeros 1024) []), Size = of_nat (length (copy_out (zeros 1024) []))\<rparr>],
        rp_diffID := [spell (zeros 1024)]\<rparr>) \<and>
   0 < length (rp_diffID (snd (addBlob exact_lib fs_a None (task_a 0 [])))) - length (rp_diffID (task_a 0 [])) \<and>
   reach exact_lib 0 producer_start \<and>
   rp_diffID (snd (addBlob exact_lib fs_a None (task_a 0 []))) ! 0
     = sha256 exact_lib (gz_in (gzs (producer exact_lib 0 fs_a [] None) ! 0)) \<and>
   diffID (split exact_lib producer_start) = 1"
proof -
  let ?rp = "task_a 0 []"
  let ?s = "producer exact_lib 0 fs_a [] None"
  have st: "PutBlob exact_lib (pipes ?s ! 0) = storePut exact_lib (p_bytes (pipes ?s ! 0))"
    by (simp add: PutBlob_def empty_run_status)
  have pb: "p_bytes (pipes ?s ! 0) = copy_out (zeros 1024) []"
    by (simp add: producer_def producer_finish_def Let_def pipe_close_pipes gz_Close_pipes
      bothCompressed_Write_pipes tw_Close_gzs tw_Close_tws gz_Close_gzs exact_lib_simps)
  have a: "addBlob exact_lib fs_a None ?rp =
     (None, ?rp\<lparr>rp_layerDesc := [\<lparr>MediaType = MediaTypeImageLayerGzip,
        Digest = spell (copy_out (zeros 1024) []), Size = of_nat (length (copy_out (zeros 1024) []))\<rparr>],
        rp_diffID := [spell (zeros 1024)]\<rparr>)"
    by (simp add: addBlob_def Let_def task_a_def ch_producer_unbounded st pb empty_run_digs exact_lib_simps)
  have k: "0 < length (rp_diffID (snd (addBlob exact_lib fs_a None ?rp))) - length (rp_diffID ?rp)"
    by (simp add: a) (simp add: task_a_def)
  have p: "addBlob exact_lib fs_a None ?rp = (fst (addBlob exact_lib fs_a None ?rp), snd (addBlob exact_lib fs_a None ?rp))"
    by simp
  have r: "reach exact_lib 0 producer_start" by (rule reach_start)
  have m: "rp_maxLayerSize ?rp = 0" "rp_rootfses ?rp = []" by (simp_all add: task_a_def)
  from diffID_is_digest_of_compressed_bytes [OF p refl k, of 0 producer_start] r
  show ?thesis using a k by (simp add: m)
qed

subsection \<open>Rootfses without entries\<close>

lemma handler_root:
  "v_err v = None \<Longrightarrow> v_path v = r \<Longrightarrow>
   handler L m r b v s = (if b then Some ThreadPoolCancelled else None, s)"
  by (simp add: handler_def)

lemma walk_roots:
  "\<forall>v\<in>set vs. v_err v = None \<and> v_path v = r \<Longrightarrow> snd (snd (walk L m r vs c s)) = s"
proof (induction vs arbitrary: c)
  case Nil
  show ?case by simp
next
  case (Cons v vs)
  have v: "v_err v = None" "v_path v = r" using Cons.prems by simp_all
  have ih: "snd (snd (walk L m r vs (ctx_tick c) s)) = s" using Cons.prems by (intro Cons.IH) simp
  show ?case
  proof (cases "ctx_done c")
    case True
    then show ?thesis by (simp add: handler_root [OF v])
  next
    case False
    then show ?thesis by (simp add: handler_root [OF v] ih)
  qed
qed

lemma walk_roots_live:
  "\<forall>v\<in>set vs. v_err v = None \<and> v_path v = r \<Longrightarrow> walk L m r vs None s = (None, None, s)"
proof (induction vs)
  case Nil
  show ?case by simp
next
  case (Cons v vs)
  have v: "v_err v = None" "v_path v = r" using Cons.prems by simp_all
  have ih: "walk L m r vs None s = (None, None, s)" using Cons.prems by (intro Cons.IH) simp
  show ?case by (simp add: handler_root [OF v] ctx_done_def ih)
qed

lemma walk_all_roots_live:
  "roots_only fs rs \<Longrightarrow> walk_all L m fs rs None s = (None, s)"
proof (induction rs)
  case Nil
  show ?case by simp
next
  case (Cons r rs)
  have "\<forall>v\<in>set (fs r). v_err v = None \<and> v_path v = r" using Cons.prems by (simp add: roots_only_def)
  note w = walk_roots_live [OF this, of L m s]
  have ih: "walk_all L m fs rs None s = (None, s)" using Cons.prems by (intro Cons.IH) (simp add: roots_only_def)
  show ?case by (simp add: w ih)
qed

lemma walk_all_roots:
  "roots_only fs rs \<Longrightarrow>
   digs (snd (walk_all L m fs rs c s)) = digs s \<and> tws (snd (walk_all L m fs rs c s)) = tws s \<and>
   tw (snd (walk_all L m fs rs c s)) = tw s \<and> ch (snd (walk_all L m fs rs c s)) = ch s"
proof (induction rs arbitrary: c s)
  case Nil
  show ?case by simp
next
  case (Cons r rs)
  obtain e c1 s1 where h: "walk L m r (fs r) c s = (e, c1, s1)"
    by (cases "walk L m r (fs r) c s")
  have ro: "roots_only fs rs" using Cons.prems by (simp add: roots_only_def)
  have "\<forall>v\<in>set (fs r). v_err v = None \<and> v_path v = r" using Cons.prems by (simp add: roots_only_def)
  from walk_roots [OF this, of L m c s] h have h': "walk L m r (fs r) c s = (e, c1, s)" by simp
  show ?case
  proof (cases e)
    case None
    show ?thesis unfolding walk_all.simps h' None using Cons.IH [OF ro, of c1 s] by simp
  next
    case (Some x)
    show ?thesis unfolding walk_all.simps h' Some
      using Cons.IH [OF ro, of c1 "writer_CloseWithError x (writer s) s"] by simp
  qed
qed

lemma producer_finish_digs:
  "digs (producer_finish L s) = digs (tw_Close 0 (tw_Close (tw s) s))"
  by (simp add: producer_finish_def Let_def tw_Close_digs tw_Close_tws)

lemma tw_Close_fresh:
  "digs s = [[]] \<Longrightarrow> tws s = [\<lparr>tw_gz = 0, tw_dig = 0, tw_pad = 0, tw_closed = False\<rparr>] \<Longrightarrow> tw s = 0 \<Longrightarrow>
   digs (tw_Close 0 (tw_Close (tw s) s)) = [zeros 1024]"
  by (simp add: tw_Close_digs tw_Close_tws)

lemma roots_only_digs:
  "roots_only fs rs \<Longrightarrow> digs (producer L m fs rs c) = [zeros 1024] \<and> ch (producer L m fs rs c) = [(0, 0)]"
proof -
  assume ro: "roots_only fs rs"
  note w = walk_all_roots [OF ro, of L m c producer_start]
  have "digs (producer L m fs rs c) = [zeros 1024]"
    unfolding producer_def producer_finish_digs
    by (rule tw_Close_fresh) (simp_all add: w)
  moreover have "ch (producer L m fs rs c) = [(0, 0)]"
    by (simp add: producer_def w)
  ultimately show ?thesis by simp
qed


lemma producer_roots_live: "roots_only fs rs \<Longrightarrow> producer L m fs rs None = producer L m fs [] None"
  by (simp add: producer_def walk_all_roots_live)

lemma empty_run_bytes: "p_bytes (pipes (producer L m fs [] c) ! 0) = gzCloseOut L (zeros 1024) []"
  by (simp add: producer_def producer_finish_def Let_def pipe_close_pipes gz_Close_pipes
      bothCompressed_Write_pipes tw_Close_gzs tw_Close_tws gz_Close_gzs)

lemma empty_run_ch: "ch (producer L m fs [] c) = [(0, 0)]"
  by (simp add: producer_def)

lemma addBlob_exact_roots_only:
  assumes "roots_only fs (rp_rootfses rp)"
  shows "addBlob exact_lib fs None rp =
     (None, rp\<lparr>rp_layerDesc := rp_layerDesc rp @ [\<lparr>MediaType = MediaTypeImageLayerGzip,
        Digest = spell (copy_out (zeros 1024) []), Size = of_nat (length (copy_out (zeros 1024) []))\<rparr>],
        rp_diffID := rp_diffID rp @ [spell (zeros 1024)]\<rparr>)"
proof -
  let ?s = "producer exact_lib (rp_maxLayerSize rp) fs [] None"
  have p: "producer exact_lib (rp_maxLayerSize rp) fs (rp_rootfses rp) None = ?s"
    by (rule producer_roots_live [OF assms])
  have st: "PutBlob exact_lib (pipes ?s ! 0) = Inr (spell (copy_out (zeros 1024) []), of_nat (length (copy_out (zeros 1024) [])))"
    by (simp add: PutBlob_def empty_run_status empty_run_bytes exact_lib_simps)
  show ?thesis
    by (simp add: addBlob_def Let_def p empty_run_ch st empty_run_digs exact_lib_simps)
qed

text \<open>
  Claim C10. The first handle is on the channel before the first walk starts,
  and it stays the first handle of every run. So an \<^verbatim>\<open>addBlob\<close> that
  returns no error has appended at least one diff-id and one descriptor. When
  the rootfses hold no entries it has appended exactly one, and the diff-id is
  the digest of the 1024 zero bytes that closing an unused tar writer writes:
  the empty archive.
\<close>

theorem first_segment_always_handed_off:
  "ch producer_start = [(0, 0)] \<and>
   (\<exists>hs. ch (producer L m fs rs c) = (0, 0) # hs) \<and>
   (addBlob L fs c rp = (None, rp') \<longrightarrow>
      length (rp_diffID rp) < length (rp_diffID rp') \<and>
      length (rp_layerDesc rp) < length (rp_layerDesc rp')) \<and>
   (roots_only fs (rp_rootfses rp) \<and> addBlob L fs c rp = (None, rp') \<longrightarrow>
      rp_diffID rp' = rp_diffID rp @ [sha256 L (zeros 1024)] \<and>
      length (rp_layerDesc rp') = length (rp_layerDesc rp) + 1) \<and>
   digs (tw_Close (tw producer_start) producer_start) = [zeros 1024] \<and>
   zeros 1024 = replicate 1024 0"
proof -
  let ?s = "producer L m fs rs c"
  have w: "wf ?s" by (rule wf_producer)
  have "ch ?s ! 0 = (0, 0)" using wf_nth [OF w, of 0] wf_pos [OF w] by simp
  then have hd: "\<exists>hs. ch ?s = (0, 0) # hs" using wf_pos [OF w] by (cases "ch ?s") auto
  have grow: "addBlob L fs c rp = (None, rp') \<longrightarrow>
      length (rp_diffID rp) < length (rp_diffID rp') \<and>
      length (rp_layerDesc rp) < length (rp_layerDesc rp')"
  proof
    assume a: "addBlob L fs c rp = (None, rp')"
    let ?t = "producer L (rp_maxLayerSize rp) fs (rp_rootfses rp) c"
    have c: "consumer L ?t (ch ?t) rp = (None, rp')" using a by (simp add: addBlob_def Let_def)
    have pos: "0 < length (ch ?t)" by (rule wf_pos [OF wf_producer])
    from consumer_appends [OF c] obtain n where n: "n \<le> length (ch ?t)"
      "rp_diffID rp' = rp_diffID rp @ map (\<lambda>h. sha256 L (digs ?t ! snd h)) (take n (ch ?t))"
      "length (rp_layerDesc rp') = length (rp_layerDesc rp) + n"
      "(None = (None :: error option)) = (n = length (ch ?t))" by blast
    have "n = length (ch ?t)" using n(4) by simp
    then show "length (rp_diffID rp) < length (rp_diffID rp') \<and>
      length (rp_layerDesc rp) < length (rp_layerDesc rp')" using n(2,3) pos by simp
  qed
  have empty: "roots_only fs (rp_rootfses rp) \<and> addBlob L fs c rp = (None, rp') \<longrightarrow>
      rp_diffID rp' = rp_diffID rp @ [sha256 L (zeros 1024)] \<and>
      length (rp_layerDesc rp') = length (rp_layerDesc rp) + 1"
  proof
    assume h: "roots_only fs (rp_rootfses rp) \<and> addBlob L fs c rp = (None, rp')"
    let ?t = "producer L (rp_maxLayerSize rp) fs (rp_rootfses rp) c"
    have c: "consumer L ?t (ch ?t) rp = (None, rp')" using h by (simp add: addBlob_def Let_def)
    from h have r: "digs ?t = [zeros 1024]" "ch ?t = [(0, 0)]" by (simp_all add: roots_only_digs)
    from consumer_appends [OF c] obtain n where n: "n \<le> length (ch ?t)"
      "rp_diffID rp' = rp_diffID rp @ map (\<lambda>h. sha256 L (digs ?t ! snd h)) (take n (ch ?t))"
      "length (rp_layerDesc rp') = length (rp_layerDesc rp) + n"
      "(None = (None :: error option)) = (n = length (ch ?t))" by blast
    have "n = 1" using n(4) r by simp
    then show "rp_diffID rp' = rp_diffID rp @ [sha256 L (zeros 1024)] \<and>
      length (rp_layerDesc rp') = length (rp_layerDesc rp) + 1" using n(2,3) r by simp
  qed
  have t: "digs (tw_Close (tw producer_start) producer_start) = [zeros 1024]"
    by (simp add: tw_Close_digs)
  show ?thesis using hd grow empty t by (simp add: zeros_def)
qed

theorem first_segment_always_handed_off_witness:
  "roots_only fs_a (rp_rootfses (task_a 5 [''/b''])) \<and>
   addBlob exact_lib fs_a None (task_a 5 [''/b'']) = (None, snd (addBlob exact_lib fs_a None (task_a 5 [''/b'']))) \<and>
   rp_diffID (snd (addBlob exact_lib fs_a None (task_a 5 [''/b'']))) = [sha256 exact_lib (zeros 1024)] \<and>
   length (rp_layerDesc (snd (addBlob exact_lib fs_a None (task_a 5 [''/b''])))) = 1"
proof -
  let ?rp = "task_a 5 [''/b'']"
  have ro: "roots_only fs_a (rp_rootfses ?rp)"
    by (simp add: roots_only_def task_a_def fs_a_def visit_root_def)
  have a: "addBlob exact_lib fs_a None ?rp = (None, snd (addBlob exact_lib fs_a None ?rp))"
    by (simp add: addBlob_exact_roots_only [OF ro])
  have e: "rp_diffID ?rp = []" "rp_layerDesc ?rp = []" by (simp_all add: task_a_def)
  from first_segment_always_handed_off [of exact_lib 5 fs_a "[''/b'']" None ?rp "snd (addBlob exact_lib fs_a None ?rp)"] ro a
  show ?thesis by (simp add: e)
qed

subsection \<open>Cancellation\<close>

lemma handler_cancelled: "handler L m r True v s = (Some ThreadPoolCancelled, s)"
  by (simp add: handler_def)

lemma ctx_tick_done: "ctx_done c \<Longrightarrow> ctx_tick c = c"
  by (simp add: ctx_done_def)

lemma ctx_tick_funpow_done: "ctx_done c \<Longrightarrow> (ctx_tick ^^ k) c = c"
  by (induction k) (simp_all add: ctx_tick_done)

lemma walk_cancelled:
  "ctx_done c \<Longrightarrow> walk L m r vs c s = (if vs = [] then None else Some ThreadPoolCancelled, c, s)"
  by (cases vs) (simp_all add: handler_cancelled ctx_tick_done)

lemma walk_all_cancelled:
  "ctx_done c \<Longrightarrow>
   fst (walk_all L m fs rs c s) = c \<and>
   digs (snd (walk_all L m fs rs c s)) = digs s \<and> gzs (snd (walk_all L m fs rs c s)) = gzs s \<and>
   tws (snd (walk_all L m fs rs c s)) = tws s \<and> ch (snd (walk_all L m fs rs c s)) = ch s \<and>
   uncompressedCounter (snd (walk_all L m fs rs c s)) = uncompressedCounter s \<and>
   trace (snd (walk_all L m fs rs c s)) =
     trace s @ replicate (length (filter (\<lambda>r. fs r \<noteq> []) rs)) (EvCloseWithError (writer s) ThreadPoolCancelled)"
proof (induction rs arbitrary: s)
  case Nil
  show ?case by simp
next
  case (Cons r rs)
  note w = walk_cancelled [OF Cons.prems, of L m r "fs r" s]
  show ?case
  proof (cases "fs r = []")
    case True
    then show ?thesis using Cons.IH [OF Cons.prems, of s] by (simp add: w)
  next
    case False
    then show ?thesis
      using Cons.IH [OF Cons.prems, of "writer_CloseWithError ThreadPoolCancelled (writer s) s"]
      by (simp add: w replicate_app_Cons_same)
  qed
qed

text \<open>
  Claim C8. The cancellation check is the first thing the handler does: with
  the signal set it returns the sentinel \<^verbatim>\<open>pool.ThreadPoolCancelled\<close> and
  leaves the state as it was, whatever the entry is, a walk error included.
  The signal stays set; so from the first observation on, every walk with an
  entry to visit stops at its first invocation with the sentinel, and the
  remaining walks of all rootfses change no digester, compressor or tar writer,
  send no handle and add to the producer's history nothing but the
  \<^verbatim>\<open>CloseWithError\<close> that follows each failed walk: no entry is archived.
\<close>

theorem cancelled_walk_archives_nothing:
  "handler L m r True v s = (Some ThreadPoolCancelled, s) \<and>
   (ctx_done c \<longrightarrow>
      ctx_done ((ctx_tick ^^ k) c) \<and>
      handler L m r (ctx_done c) v s = (Some ThreadPoolCancelled, s) \<and>
      walk L m r (v # vs) c s = (Some ThreadPoolCancelled, c, s) \<and>
      digs (snd (walk_all L m fs rs c s)) = digs s \<and> gzs (snd (walk_all L m fs rs c s)) = gzs s \<and>
      tws (snd (walk_all L m fs rs c s)) = tws s \<and> ch (snd (walk_all L m fs rs c s)) = ch s \<and>
      uncompressedCounter (snd (walk_all L m fs rs c s)) = uncompressedCounter s \<and>
      trace (snd (walk_all L m fs rs c s)) =
        trace s @ replicate (length (filter (\<lambda>r. fs r \<noteq> []) rs))
                    (EvCloseWithError (writer s) ThreadPoolCancelled))"
proof -
  have "ctx_done c \<longrightarrow>
      ctx_done ((ctx_tick ^^ k) c) \<and>
      handler L m r (ctx_done c) v s = (Some ThreadPoolCancelled, s) \<and>
      walk L m r (v # vs) c s = (Some ThreadPoolCancelled, c, s) \<and>
      digs (snd (walk_all L m fs rs c s)) = digs s \<and> gzs (snd (walk_all L m fs rs c s)) = gzs s \<and>
      tws (snd (walk_all L m fs rs c s)) = tws s \<and> ch (snd (walk_all L m fs rs c s)) = ch s \<and>
      uncompressedCounter (snd (walk_all L m fs rs c s)) = uncompressedCounter s \<and>
      trace (snd (walk_all L m fs rs c s)) =
        trace s @ replicate (length (filter (\<lambda>r. fs r \<noteq> []) rs))
                    (EvCloseWithError (writer s) ThreadPoolCancelled)"
  proof
    assume d: "ctx_done c"
    show "ctx_done ((ctx_tick ^^ k) c) \<and>
      handler L m r (ctx_done c) v s = (Some ThreadPoolCancelled, s) \<and>
      walk L m r (v # vs) c s = (Some ThreadPoolCancelled, c, s) \<and>
      digs (snd (walk_all L m fs rs c s)) = digs s \<and> gzs (snd (walk_all L m fs rs c s)) = gzs s \<and>
      tws (snd (walk_all L m fs rs c s)) = tws s \<and> ch (snd (walk_all L m fs rs c s)) = ch s \<and>
      uncompressedCounter (snd (walk_all L m fs rs c s)) = uncompressedCounter s \<and>
      trace (snd (walk_all L m fs rs c s)) =
        trace s @ replicate (length (filter (\<lambda>r. fs r \<noteq> []) rs))
                    (EvCloseWithError (writer s) ThreadPoolCancelled)"
      using walk_all_cancelled [OF d, of L m fs rs s] walk_cancelled [OF d, of L m r "v # vs" s] d
      by (simp add: ctx_tick_funpow_done handler_cancelled)
  qed
  then show ?thesis by (simp add: handler_cancelled)
qed

theorem cancelled_walk_archives_nothing_witness:
  "ctx_done (Some 0) \<and>
   handler exact_lib 0 ''/a'' (ctx_done (Some 0)) (visit_file ''/a/f'' [1, 2, 3]) producer_start
     = (Some ThreadPoolCancelled, producer_start) \<and>
   digs (snd (walk_all exact_lib 0 fs_a [''/a'', ''/b''] (Some 0) producer_start)) = [[]] \<and>
   trace (snd (walk_all exact_lib 0 fs_a [''/a'', ''/b''] (Some 0) producer_start)) =
     trace producer_start @ [EvCloseWithError 0 ThreadPoolCancelled, EvCloseWithError 0 ThreadPoolCancelled]"
proof -
  have d: "ctx_done (Some 0)" by (simp add: ctx_done_def)
  have n: "fs_a ''/a'' \<noteq> []" "fs_a ''/b'' \<noteq> []" by (simp_all add: fs_a_def)
  from cancelled_walk_archives_nothing [of exact_lib 0 "''/a''" "visit_file ''/a/f'' [1, 2, 3]" producer_start "Some 0" 0 "[]" fs_a "[''/a'', ''/b'']"] d
  show ?thesis by (simp add: n numeral_2_eq_2 del: walk.simps walk_all.simps)
qed

subsection \<open>The pool run and the assembly\<close>

lemma pool_Run_failed: "pool_Run L fs cancel sched (Some e) tasks = (e', tasks') \<Longrightarrow> e' = Some e"
  by (induction sched arbitrary: tasks) (auto simp: Let_def split: prod.splits)

lemma pool_Run_ok:
  "pool_Run L fs cancel sched None tasks = (None, tasks') \<Longrightarrow> distinct sched \<Longrightarrow>
   \<forall>i\<in>set sched. i < length tasks \<Longrightarrow>
   tasks' = map (\<lambda>i. if i \<in> set sched then snd (addBlob L fs None (tasks ! i)) else tasks ! i) [0..<length tasks]"
proof (induction sched arbitrary: tasks)
  case Nil
  then show ?case by (simp add: map_nth)
next
  case (Cons i sched)
  obtain e t where et: "addBlob L fs None (tasks ! i) = (e, t)" by (cases "addBlob L fs None (tasks ! i)")
  let ?f = "if e \<noteq> None \<and> e \<noteq> Some ThreadPoolCancelled then e else None"
  have run: "pool_Run L fs cancel sched ?f (tasks[i := t]) = (None, tasks')"
    using Cons.prems(1) et by (simp add: Let_def)
  have fnone: "?f = None"
  proof (cases ?f)
    case None then show ?thesis .
  next
    case (Some x)
    with run pool_Run_failed [of L fs cancel sched x "tasks[i := t]" None tasks'] show ?thesis by simp
  qed
  have ih: "tasks' = map (\<lambda>j. if j \<in> set sched then snd (addBlob L fs None (tasks[i := t] ! j)) else tasks[i := t] ! j) [0..<length (tasks[i := t])]"
    using Cons.IH [of "tasks[i := t]"] run fnone Cons.prems by simp
  show ?case
    unfolding ih using Cons.prems(2,3) et by (auto simp: nth_list_update)
qed

lemma pool_Run_all:
  assumes "pool_Run L fs cancel sched None tasks = (None, tasks')" "distinct sched"
    "set sched = {..<length tasks}"
  shows "tasks' = map (\<lambda>t. snd (addBlob L fs None t)) tasks"
proof -
  have "tasks' = map (\<lambda>i. if i \<in> set sched then snd (addBlob L fs None (tasks ! i)) else tasks ! i) [0..<length tasks]"
    using assms by (intro pool_Run_ok) auto
  also have "\<dots> = map (\<lambda>i. snd (addBlob L fs None (tasks ! i))) [0..<length tasks]"
    using assms(3) by simp
  also have "\<dots> = map (\<lambda>t. snd (addBlob L fs None t)) (map (\<lambda>i. tasks ! i) [0..<length tasks])"
    by (simp add: comp_def)
  also have "\<dots> = map (\<lambda>t. snd (addBlob L fs None t)) tasks" by (simp add: map_nth)
  finally show ?thesis .
qed

lemma assemble_concat:
  "assemble tasks config mf =
     (config\<lparr>i_DiffIDs := i_DiffIDs config @ concat (map rp_diffID tasks)\<rparr>,
      mf\<lparr>m_Layers := m_Layers mf @ concat (map rp_layerDesc tasks)\<rparr>)"
  by (induction tasks arbitrary: config mf) simp_all

lemma update_last: "xs \<noteq> [] \<Longrightarrow> xs[length xs - 1 := y] = butlast xs @ [y]"
  by (induction xs rule: rev_induct) simp_all

lemma concat_update_last:
  assumes "ts \<noteq> []"
  shows "concat (map rp_rootfses (ts[length ts - 1 := (last ts)\<lparr>rp_rootfses := rp_rootfses (last ts) @ [a]\<rparr>]))
         = concat (map rp_rootfses ts) @ [a]"
proof -
  have ts: "ts = butlast ts @ [last ts]" using assms by simp
  have "concat (map rp_rootfses (butlast ts @ [(last ts)\<lparr>rp_rootfses := rp_rootfses (last ts) @ [a]\<rparr>]))
        = concat (map rp_rootfses (butlast ts @ [last ts])) @ [a]" by simp
  then show ?thesis using update_last [OF assms] ts by simp
qed

lemma group_order:
  "group_rootfses d m absf i rs tasks = Inr tasks' \<Longrightarrow>
   concat (map rp_rootfses tasks') = concat (map rp_rootfses tasks) @ map (\<lambda>r. projr (absf r)) rs"
proof (induction rs arbitrary: i tasks)
  case Nil
  then show ?case by simp
next
  case (Cons r rs)
  let ?t1 = "if go_rem (int i) d = 0
            then tasks @ [\<lparr>rp_maxLayerSize = m, rp_rootfses = [], rp_diffID = [], rp_layerDesc = []\<rparr>]
            else tasks"
  from Cons.prems have d: "d \<noteq> 0" by (auto split: if_splits)
  from Cons.prems d obtain a where a: "absf r = Inr a" by (cases "absf r") (auto simp: Let_def)
  from Cons.prems d a have ne: "?t1 \<noteq> []" by (auto simp: Let_def split: if_splits)
  let ?t2 = "?t1[length ?t1 - 1 := (last ?t1)\<lparr>rp_rootfses := rp_rootfses (last ?t1) @ [a]\<rparr>]"
  have rec: "group_rootfses d m absf (Suc i) rs ?t2 = Inr tasks'"
    using Cons.prems d a ne by (simp add: Let_def)
  have c1: "concat (map rp_rootfses ?t1) = concat (map rp_rootfses tasks)" by simp
  have "concat (map rp_rootfses ?t2) = concat (map rp_rootfses ?t1) @ [a]"
    by (rule concat_update_last [OF ne])
  then have c2: "concat (map rp_rootfses ?t2) = concat (map rp_rootfses tasks) @ [a]" using c1 by simp
  show ?case using Cons.IH [OF rec] c2 a by simp
qed

lemma finish_build_success:
  "finish_build W tasks = (Returned None, ops) \<Longrightarrow>
   \<exists>d0 mf config dg sz dg2 sz2.
     w_resolve W = Inr [d0] \<and> w_manifest W d0 = Inr (Some mf) \<and>
     w_image W (m_Config mf) = Inr (Some config) \<and>
     ops = [OpResolveReference (w_tag W), OpFromDescriptor d0, OpFromDescriptor (m_Config mf),
            OpPutBlobJSONConfig (config\<lparr>i_DiffIDs := i_DiffIDs config @ concat (map rp_diffID tasks)\<rparr>),
            OpPutBlobJSONManifest
              (mf\<lparr>m_Layers := m_Layers mf @ concat (map rp_layerDesc tasks),
                  m_Config := \<lparr>MediaType = MediaTypeImageConfig, Digest = dg, Size = sz\<rparr>\<rparr>),
            OpUpdateReference (w_tag W) \<lparr>MediaType = MediaTypeImageManifest, Digest = dg2, Size = sz2\<rparr>]"
  apply (simp add: finish_build_def assemble_concat Let_def split: sum.splits if_splits option.splits prod.splits)
  apply (cases "projr (w_resolve W)")
   apply simp
  apply (auto simp: length_Suc_conv)
  done


text \<open>
  Claim C7. When the pool's \<^verbatim>\<open>Run\<close> returns an error, \<^verbatim>\<open>doBuild\<close>
  returns that error at once: after the layout was opened it does nothing to it
  but the deferred \<^verbatim>\<open>Close\<close> and \<^verbatim>\<open>GC\<close>. The reference is not
  resolved, neither manifest nor config is read or written, the reference is
  not updated; the blobs the tasks have put are left to the garbage collection.
\<close>

theorem pool_failure_leaves_image_untouched:
  assumes "length (w_args W) = 2" and "w_readFile W = Inr raw" and "w_skopeo W = None"
    and "w_openLayout W = None"
    and "group_rootfses (w_dirsPerBlob W) (w_maxLayerSize W) (w_abs W) 0 (Split_nl (w_trimSpace W raw)) [] = Inr tasks"
    and "pool_Run L (w_fs W) (w_cancel W) (w_sched W) None tasks = (Some e, tasks1)"
  shows "doBuild L W = (Returned (Some e), [OpOpenLayout, OpClose, OpGC])"
  using assms by (simp add: doBuild_def)

lemma handler_walk_error:
  "v_err v = Some e \<Longrightarrow> handler L m r False v s = (Some e, s)"
  by (simp add: handler_def)

lemma failed_run_status:
  "p_status (pipes (producer_finish L (writer_CloseWithError e 0 producer_start)) ! 0) = PipeErr e"
  by (simp add: producer_finish_def Let_def pipe_close_pipes gz_Close_pipes
      bothCompressed_Write_pipes tw_Close_gzs tw_Close_tws gz_Close_gzs)

lemma addBlob_walk_error:
  assumes "rp_rootfses rp = [r]" and "fs r = v # vs" and "v_err v = Some e"
  shows "addBlob L fs None rp = (Some e, rp)"
proof -
  have w: "walk L (rp_maxLayerSize rp) r (fs r) None producer_start = (Some e, None, producer_start)"
    by (simp add: assms(2) handler_walk_error [OF assms(3)] ctx_done_def)
  have p: "producer L (rp_maxLayerSize rp) fs (rp_rootfses rp) None
             = producer_finish L (writer_CloseWithError e 0 producer_start)"
    by (simp add: producer_def assms(1) w)
  have c: "ch (producer_finish L (writer_CloseWithError e 0 producer_start)) = [(0, 0)]" by simp
  show ?thesis
    by (simp add: addBlob_def Let_def p c PutBlob_def failed_run_status)
qed

theorem pool_failure_leaves_image_untouched_witness:
  "length (w_args (world_a\<lparr>w_readFile := Inr ''/bad'', w_sched := [0]\<rparr>)) = 2 \<and>
   w_skopeo (world_a\<lparr>w_readFile := Inr ''/bad'', w_sched := [0]\<rparr>) = None \<and>
   w_openLayout (world_a\<lparr>w_readFile := Inr ''/bad'', w_sched := [0]\<rparr>) = None \<and>
   group_rootfses 1 0 Inr 0 (Split_nl ''/bad'') [] = Inr [task_a 0 [''/bad'']] \<and>
   pool_Run exact_lib fs_a (\<lambda>i. 0) [0] None [task_a 0 [''/bad'']]
     = (Some (OtherError ''lstat''), [task_a 0 [''/bad'']]) \<and>
   doBuild exact_lib (world_a\<lparr>w_readFile := Inr ''/bad'', w_sched := [0]\<rparr>)
     = (Returned (Some (OtherError ''lstat'')), [OpOpenLayout, OpClose, OpGC])"
proof -
  let ?W = "world_a\<lparr>w_readFile := Inr ''/bad'', w_sched := [0]\<rparr>"
  have g: "group_rootfses (w_dirsPerBlob ?W) (w_maxLayerSize ?W) (w_abs ?W) 0 (Split_nl (w_trimSpace ?W ''/bad'')) []
      = Inr [task_a 0 [''/bad'']]"
    by (simp add: world_a_def go_rem_def task_a_def)
  have a: "addBlob exact_lib fs_a None (task_a 0 [''/bad'']) = (Some (OtherError ''lstat''), task_a 0 [''/bad''])"
    by (rule addBlob_walk_error [where r = "''/bad''" and vs = "[]" and v = "(visit_root ''/bad'')\<lparr>v_err := Some (OtherError ''lstat'')\<rparr>"])
       (simp_all add: task_a_def fs_a_def)
  have r: "pool_Run exact_lib (w_fs ?W) (w_cancel ?W) (w_sched ?W) None [task_a 0 [''/bad'']]
      = (Some (OtherError ''lstat''), [task_a 0 [''/bad'']])"
    by (simp add: world_a_def a)
  have h: "length (w_args ?W) = 2" "w_readFile ?W = Inr ''/bad''" "w_skopeo ?W = None" "w_openLayout ?W = None"
    by (simp_all add: world_a_def)
  from pool_failure_leaves_image_untouched [OF h g r] g r h show ?thesis by (simp add: world_a_def)
qed

text \<open>
  Claim C5. When \<^verbatim>\<open>doBuild\<close> succeeds, the config it writes holds the
  diff-ids that were there followed by the diff-ids of the first task, then of
  the second, and so on in the order of the task list, and the manifest it
  writes holds the layers likewise; the task list follows the rootfs list. The
  pool may complete the tasks in any order (any schedule that runs each task
  once): the schedule does not occur in what is written.
\<close>

theorem assembly_in_task_order:
  assumes "length (w_args W) = 2" and "w_readFile W = Inr raw" and "w_skopeo W = None"
    and "w_openLayout W = None"
    and "group_rootfses (w_dirsPerBlob W) (w_maxLayerSize W) (w_abs W) 0 (Split_nl (w_trimSpace W raw)) [] = Inr tasks"
    and "distinct (w_sched W)" and "set (w_sched W) = {..<length tasks}"
    and "doBuild L W = (Returned None, ops)"
  shows "\<exists>d0 mf config dg sz dg2 sz2.
     w_resolve W = Inr [d0] \<and> w_manifest W d0 = Inr (Some mf) \<and>
     w_image W (m_Config mf) = Inr (Some config) \<and>
     ops = [OpOpenLayout, OpResolveReference (w_tag W), OpFromDescriptor d0, OpFromDescriptor (m_Config mf),
            OpPutBlobJSONConfig
              (config\<lparr>i_DiffIDs := i_DiffIDs config @
                 concat (map (\<lambda>t. rp_diffID (snd (addBlob L (w_fs W) None t))) tasks)\<rparr>),
            OpPutBlobJSONManifest
              (mf\<lparr>m_Layers := m_Layers mf @
                   concat (map (\<lambda>t. rp_layerDesc (snd (addBlob L (w_fs W) None t))) tasks),
                  m_Config := \<lparr>MediaType = MediaTypeImageConfig, Digest = dg, Size = sz\<rparr>\<rparr>),
            OpUpdateReference (w_tag W) \<lparr>MediaType = MediaTypeImageManifest, Digest = dg2, Size = sz2\<rparr>,
            OpClose, OpGC] \<and>
     concat (map rp_rootfses tasks) = map (\<lambda>r. projr (w_abs W r)) (Split_nl (w_trimSpace W raw))"
proof -
  obtain pe tasks1 where run: "pool_Run L (w_fs W) (w_cancel W) (w_sched W) None tasks = (pe, tasks1)"
    by (cases "pool_Run L (w_fs W) (w_cancel W) (w_sched W) None tasks")
  have pe: "pe = None"
  proof (cases pe)
    case None then show ?thesis .
  next
    case (Some x)
    then show ?thesis using assms run by (simp add: doBuild_def)
  qed
  have t1: "tasks1 = map (\<lambda>t. snd (addBlob L (w_fs W) None t)) tasks"
    using run pe assms(6,7) by (intro pool_Run_all) simp_all
  obtain res ops1 where fb: "finish_build W tasks1 = (res, ops1)" by (cases "finish_build W tasks1")
  have "res = Returned None" and ops: "ops = [OpOpenLayout] @ ops1 @ [OpClose, OpGC]"
    using assms run pe fb by (simp_all add: doBuild_def)
  with fb have "finish_build W tasks1 = (Returned None, ops1)" by simp
  from finish_build_success [OF this] obtain d0 mf config dg sz dg2 sz2 where f:
     "w_resolve W = Inr [d0]" "w_manifest W d0 = Inr (Some mf)"
     "w_image W (m_Config mf) = Inr (Some config)"
     "ops1 = [OpResolveReference (w_tag W), OpFromDescriptor d0, OpFromDescriptor (m_Config mf),
            OpPutBlobJSONConfig (config\<lparr>i_DiffIDs := i_DiffIDs config @ concat (map rp_diffID tasks1)\<rparr>),
            OpPutBlobJSONManifest
              (mf\<lparr>m_Layers := m_Layers mf @ concat (map rp_layerDesc tasks1),
                  m_Config := \<lparr>MediaType = MediaTypeImageConfig, Digest = dg, Size = sz\<rparr>\<rparr>),
            OpUpdateReference (w_tag W) \<lparr>MediaType = MediaTypeImageManifest, Digest = dg2, Size = sz2\<rparr>]"
    by blast
  have go: "concat (map rp_rootfses tasks) = map (\<lambda>r. projr (w_abs W r)) (Split_nl (w_trimSpace W raw))"
    using group_order [OF assms(5)] by simp
  show ?thesis
    using f go unfolding ops t1
    by (intro exI [of _ d0] exI [of _ mf] exI [of _ config] exI [of _ dg] exI [of _ sz]
        exI [of _ dg2] exI [of _ sz2]) (simp add: comp_def)
qed


theorem assembly_in_task_order_witness:
  "length (w_args world_a) = 2 \<and> w_skopeo world_a = None \<and> w_openLayout world_a = None \<and>
   group_rootfses (w_dirsPerBlob world_a) (w_maxLayerSize world_a) (w_abs world_a) 0
      (Split_nl (w_trimSpace world_a (''/b'' @ [CHR 0x0A] @ ''/c''))) []
     = Inr [task_a 0 [''/b''], task_a 0 [''/c'']] \<and>
   distinct (w_sched world_a) \<and> set (w_sched world_a) = {..<length [task_a 0 [''/b''], task_a 0 [''/c'']]} \<and>
   fst (doBuild exact_lib world_a) = Returned None \<and>
   OpPutBlobJSONConfig \<lparr>i_DiffIDs = [''base-diff'', spell (zeros 1024), spell (zeros 1024)]\<rparr>
     \<in> set (snd (doBuild exact_lib world_a))"
proof -
  let ?tb = "task_a 0 [''/b'']" and ?tc = "task_a 0 [''/c'']"
  have h: "length (w_args world_a) = 2" "w_readFile world_a = Inr (''/b'' @ [CHR 0x0A] @ ''/c'')"
    "w_skopeo world_a = None" "w_openLayout world_a = None"
    by (simp_all add: world_a_def)
  have g: "group_rootfses (w_dirsPerBlob world_a) (w_maxLayerSize world_a) (w_abs world_a) 0
      (Split_nl (w_trimSpace world_a (''/b'' @ [CHR 0x0A] @ ''/c''))) [] = Inr [?tb, ?tc]"
    by (simp add: world_a_def go_rem_def task_a_def)
  have s: "distinct (w_sched world_a)" "set (w_sched world_a) = {..<length [?tb, ?tc]}"
    by (auto simp add: world_a_def)
  have rb: "roots_only fs_a (rp_rootfses ?tb)" and rc: "roots_only fs_a (rp_rootfses ?tc)"
    by (simp_all add: roots_only_def task_a_def fs_a_def visit_root_def)
  have eb: "fst (addBlob exact_lib fs_a None ?tb) = None" and ec: "fst (addBlob exact_lib fs_a None ?tc) = None"
    by (simp_all add: addBlob_exact_roots_only [OF rb] addBlob_exact_roots_only [OF rc])
  have fs: "w_fs world_a = fs_a" "w_sched world_a = [1, 0]" by (simp_all add: world_a_def)
  note ab = addBlob_exact_roots_only [OF rb] and ac = addBlob_exact_roots_only [OF rc]
  have run: "fst (pool_Run exact_lib (w_fs world_a) (w_cancel world_a) (w_sched world_a) None [?tb, ?tc]) = None"
    by (simp add: fs Let_def ab ac)
  obtain tasks1 where run': "pool_Run exact_lib (w_fs world_a) (w_cancel world_a) (w_sched world_a) None [?tb, ?tc] = (None, tasks1)"
    using run by (cases "pool_Run exact_lib (w_fs world_a) (w_cancel world_a) (w_sched world_a) None [?tb, ?tc]") simp
  have fb: "fst (finish_build world_a tasks1) = Returned None"
    by (simp add: finish_build_def world_a_def assemble_concat Let_def)
  have d: "doBuild exact_lib world_a = (Returned None, snd (doBuild exact_lib world_a))"
    using fb g run' by (auto simp add: doBuild_def h split: prod.splits)
  have db: "rp_diffID (snd (addBlob exact_lib fs_a None ?tb)) = [spell (zeros 1024)]"
    and dc: "rp_diffID (snd (addBlob exact_lib fs_a None ?tc)) = [spell (zeros 1024)]"
    by (simp_all add: addBlob_exact_roots_only [OF rb] addBlob_exact_roots_only [OF rc]) (simp_all add: task_a_def)
  from assembly_in_task_order [OF h g s d] obtain d0 mf config dg sz dg2 sz2 where c:
    "w_manifest world_a d0 = Inr (Some mf)" "w_image world_a (m_Config mf) = Inr (Some config)"
    "snd (doBuild exact_lib world_a) =
       [OpOpenLayout, OpResolveReference (w_tag world_a), OpFromDescriptor d0, OpFromDescriptor (m_Config mf),
            OpPutBlobJSONConfig
              (config\<lparr>i_DiffIDs := i_DiffIDs config @
                 concat (map (\<lambda>t. rp_diffID (snd (addBlob exact_lib (w_fs world_a) None t))) [?tb, ?tc])\<rparr>),
            OpPutBlobJSONManifest
              (mf\<lparr>m_Layers := m_Layers mf @
                   concat (map (\<lambda>t. rp_layerDesc (snd (addBlob exact_lib (w_fs world_a) None t))) [?tb, ?tc]),
                  m_Config := \<lparr>MediaType = MediaTypeImageConfig, Digest = dg, Size = sz\<rparr>\<rparr>),
            OpUpdateReference (w_tag world_a) \<lparr>MediaType = MediaTypeImageManifest, Digest = dg2, Size = sz2\<rparr>,
            OpClose, OpGC]" by blast
  have cfg: "config = \<lparr>i_DiffIDs = [''base-diff'']\<rparr>" using c(2) by (simp add: world_a_def)
  have "OpPutBlobJSONConfig \<lparr>i_DiffIDs = [''base-diff'', spell (zeros 1024), spell (zeros 1024)]\<rparr>
     \<in> set (snd (doBuild exact_lib world_a))"
    unfolding c(3) by (simp add: cfg fs db dc)
  then show ?thesis using h g s d by (simp add: prod_eq_iff)
qed

subsection \<open>The split\<close>

lemma counters_ok_start: "counters_ok producer_start"
  by (simp add: counters_ok_def)

lemma counters_ok_log_ev [simp]: "counters_ok (log_ev e s) = counters_ok s"
  by (simp add: counters_ok_def)

lemma counters_ok_tws [simp]: "counters_ok (s\<lparr>tws := x\<rparr>) = counters_ok s"
  by (simp add: counters_ok_def)

lemma counters_ok_mw_Write:
  "wf s \<Longrightarrow> counters_ok s \<Longrightarrow> counters_ok (mw_Write (tw s) p s)"
proof -
  assume w: "wf s" and c: "counters_ok s"
  have g: "tw_gz (tws s ! tw s) = gzw s" using wf_cur_objs [OF w] by simp
  have l: "gzw s < length (gzs s)" using w by (simp add: wf_def)
  show ?thesis using c l by (simp add: counters_ok_def g)
qed

lemma counters_ok_tw_WriteHeader:
  "wf s \<Longrightarrow> counters_ok s \<Longrightarrow> counters_ok (snd (tw_WriteHeader v name s))"
  using counters_ok_mw_Write [of s]
  by (simp add: tw_WriteHeader_def Let_def split: prod.splits)

lemma counters_ok_copy_file:
  "wf s \<Longrightarrow> counters_ok s \<Longrightarrow> counters_ok (snd (copy_file v s))"
  using counters_ok_mw_Write [of s]
  by (simp add: copy_file_def Let_def split: prod.splits)

lemma counters_ok_write_entry:
  "wf s \<Longrightarrow> counters_ok s \<Longrightarrow> counters_ok (snd (write_entry r v s))"
proof -
  assume w: "wf s" and c: "counters_ok s"
  let ?s1 = "snd (tw_WriteHeader v (drop (length r) (v_path v)) s)"
  have c1: "counters_ok ?s1" using w c by (rule counters_ok_tw_WriteHeader)
  have w1: "wf ?s1" using w by (rule wf_tw_WriteHeader)
  have c2: "counters_ok (snd (copy_file v ?s1))" using w1 c1 by (rule counters_ok_copy_file)
  from write_entry_cases [of r v s] c1 c2 show ?thesis by auto
qed

lemma counters_ok_bothCompressed_Write:
  "counters_ok s \<Longrightarrow> writer s < length (pipes s) \<Longrightarrow>
   counters_ok (snd (bothCompressed_Write (writer s) p s))"
  by (simp add: counters_ok_def bothCompressed_Write_pipes)

lemma counters_ok_gz_Flush:
  "wf s \<Longrightarrow> counters_ok s \<Longrightarrow> counters_ok (snd (gz_Flush L (gzw s) s))"
proof -
  assume w: "wf s" and c: "counters_ok s"
  have o: "gz_out (gzs s ! gzw s) = writer s" using wf_cur_objs [OF w] by simp
  have l: "gzw s < length (gzs s)" "writer s < length (pipes s)" using w by (simp_all add: wf_def)
  let ?s0 = "s\<lparr>gzs := (gzs s)[gzw s := (gzs s ! gzw s)\<lparr>gz_flushes := gz_flushes (gzs s ! gzw s) @ [length (gz_in (gzs s ! gzw s))]\<rparr>]\<rparr>"
  have c0: "counters_ok (log_ev (EvFlush (gzw s)) ?s0)" using c l by (simp add: counters_ok_def)
  have "counters_ok (snd (bothCompressed_Write (writer (log_ev (EvFlush (gzw s)) ?s0))
           (gzFlushOut L (gz_in (gzs s ! gzw s)) (gz_flushes (gzs s ! gzw s))) (log_ev (EvFlush (gzw s)) ?s0)))"
    using c0 l by (intro counters_ok_bothCompressed_Write) simp_all
  then show ?thesis by (simp add: gz_Flush_def Let_def o)
qed

lemma counters_ok_split: "counters_ok (split L s)"
  by (simp add: counters_ok_def split_def Let_def nth_append)

lemma counters_ok_size_check:
  "wf s \<Longrightarrow> counters_ok s \<Longrightarrow> counters_ok (snd (size_check L m v s))"
  using counters_ok_gz_Flush [of s L]
  by (auto simp add: size_check_def counters_ok_split split: prod.splits option.splits)

lemma counters_ok_handler:
  "wf s \<Longrightarrow> counters_ok s \<Longrightarrow> counters_ok (snd (handler L m r b v s))"
proof -
  assume w: "wf s" and c: "counters_ok s"
  have c1: "counters_ok (snd (size_check L m v s))" using w c by (rule counters_ok_size_check)
  have w1: "wf (snd (size_check L m v s))" using w by (rule wf_size_check)
  have c2: "counters_ok (snd (write_entry r v (snd (size_check L m v s))))"
    using w1 c1 by (rule counters_ok_write_entry)
  from handler_cases [of L m r b v s] c c1 c2 show ?thesis by auto
qed

lemma counters_ok_CloseWithError:
  "writer s < length (pipes s) \<Longrightarrow> counters_ok s \<Longrightarrow> counters_ok (writer_CloseWithError e (writer s) s)"
  by (simp add: counters_ok_def pipe_close_pipes)

lemma reach_counters_ok: "reach L m s \<Longrightarrow> counters_ok s"
proof (induction rule: reach.induct)
  case reach_start
  show ?case by (rule counters_ok_start)
next
  case (reach_handler s rootfs cancelled v)
  then show ?case by (simp add: counters_ok_handler reach_wf)
next
  case (reach_error s e)
  have "writer s < length (pipes s)" using reach_wf [OF reach_error.hyps] by (simp add: wf_def)
  then show ?case using reach_error.IH by (rule counters_ok_CloseWithError)
qed


lemma gz_Flush_result:
  "fst (gz_Flush L g s) = (if p_status (pipes s ! gz_out (gzs s ! g)) = PipeOpen then None else Some ErrClosedPipe)"
  by (simp add: gz_Flush_def Let_def bothCompressed_Write_pipes log_ev_def)

lemma gz_Flush_status:
  "w < length (pipes s) \<Longrightarrow> p_status (pipes (snd (gz_Flush L g s)) ! w) = p_status (pipes s ! w)"
  by (cases "w = gz_out (gzs s ! g)")
     (simp_all add: gz_Flush_def Let_def bothCompressed_Write_pipes log_ev_def)

lemma split_ch: "wf s \<Longrightarrow> ch (split L s) = ch s @ [(length (ch s), length (ch s))]"
  by (simp add: split_def Let_def wf_def)

lemma split_uncompressed: "uncompressedCounter (split L s) = 0"
  by (simp add: split_def Let_def)

lemma size_check_flushed:
  "0 < m \<Longrightarrow> 0 < uncompressedCounter s \<Longrightarrow>
   size_check L m v s =
     (if fst (gz_Flush L (gzw s) s) \<noteq> None then (fst (gz_Flush L (gzw s) s), snd (gz_Flush L (gzw s) s))
      else (None, if over_budget L m (compressedCounter (snd (gz_Flush L (gzw s) s)))
                       (uncompressedCounter (snd (gz_Flush L (gzw s) s))) (v_size v)
                  then split L (snd (gz_Flush L (gzw s) s)) else snd (gz_Flush L (gzw s) s)))"
  by (cases "gz_Flush L (gzw s) s") (auto simp add: size_check_def split: option.splits)

lemma handler_reaches_size_check:
  "v_err v = None \<Longrightarrow> v_path v \<noteq> r \<Longrightarrow> (v_symlink v \<longrightarrow> v_readlink v = None) \<Longrightarrow> v_header v = None \<Longrightarrow>
   handler L m r False v s =
     (case size_check L m v s of (Some e, s1) \<Rightarrow> (Some e, s1) | (None, s1) \<Rightarrow> write_entry r v s1)"
  by (auto simp add: handler_def)


lemma tw_WriteHeader_result:
  "fst (tw_WriteHeader v name s) = snd (v_writeHeader v name)"
  "gzs (snd (tw_WriteHeader v name s)) = gzs (mw_Write (tw s) (zeros (tw_pad (tws s ! tw s)) @ fst (v_writeHeader v name)) s)"
  "digs (snd (tw_WriteHeader v name s)) = digs (mw_Write (tw s) (zeros (tw_pad (tws s ! tw s)) @ fst (v_writeHeader v name)) s)"
  "uncompressedCounter (snd (tw_WriteHeader v name s)) =
     uncompressedCounter s + of_nat (tw_pad (tws s ! tw s) + length (fst (v_writeHeader v name)))"
  "tws (snd (tw_WriteHeader v name s)) =
     (tws s)[tw s := (tws s ! tw s)\<lparr>tw_pad := (if v_reg v then tar_padding (unat (v_size v)) else 0)\<rparr>]"
  by (simp_all add: tw_WriteHeader_def Let_def split: prod.splits)

lemma copy_file_result:
  "fst (copy_file v s) = (snd (v_copy v), int (length (fst (v_copy v))))"
  "gzs (snd (copy_file v s)) = gzs (mw_Write (tw s) (fst (v_copy v)) s)"
  "digs (snd (copy_file v s)) = digs (mw_Write (tw s) (fst (v_copy v)) s)"
  "uncompressedCounter (snd (copy_file v s)) = uncompressedCounter s + of_nat (length (fst (v_copy v)))"
  by (simp_all add: copy_file_def Let_def split: prod.splits)

lemma write_entry_ok:
  assumes "snd (v_writeHeader v (drop (length r) (v_path v))) = None" and "v_reg v" and "v_open v = None"
    and "snd (v_copy v) = None" and "int (length (fst (v_copy v))) = sint (v_size v)"
  shows "write_entry r v s = (None, snd (copy_file v (snd (tw_WriteHeader v (drop (length r) (v_path v)) s))))"
proof -
  let ?h = "tw_WriteHeader v (drop (length r) (v_path v)) s"
  have h: "?h = (None, snd ?h)" using assms(1) tw_WriteHeader_result(1) [of v _ s] by (simp add: prod_eq_iff)
  let ?c = "copy_file v (snd ?h)"
  have c: "?c = ((None, sint (v_size v)), snd ?c)"
    using assms(4,5) copy_file_result(1) [of v "snd ?h"] by (simp add: prod_eq_iff)
  show ?thesis
    unfolding write_entry_def by (subst h, simp add: assms(2,3), subst c, simp)
qed

lemma visit_file_simps:
  "v_path (visit_file p body) = p" "v_err (visit_file p body) = None"
  "v_symlink (visit_file p body) = False" "v_header (visit_file p body) = None"
  "v_size (visit_file p body) = of_nat (length body)"
  "v_writeHeader (visit_file p body) name = (map (\<lambda>c. of_nat (of_char c)) name, None)"
  "v_reg (visit_file p body) = True" "v_open (visit_file p body) = None"
  "v_copy (visit_file p body) = (body, None)"
  by (simp_all add: visit_file_def)

lemma handler_file:
  assumes "p \<noteq> r" and "length body < 1000"
  shows "handler L m r False (visit_file p body) s =
    (case size_check L m (visit_file p body) s of
       (Some e, s1) \<Rightarrow> (Some e, s1)
     | (None, s1) \<Rightarrow> (None, snd (copy_file (visit_file p body) (snd (tw_WriteHeader (visit_file p body) (drop (length r) p) s1)))))"
proof -
  have "sint (of_nat (length body) :: 64 word) = signed_take_bit 63 (int (length body))"
    by (simp add: signed_of_nat)
  also have "\<dots> = int (length body)"
    using assms(2) by (intro signed_take_bit_int_eq_self) simp_all
  finally have sz: "int (length body) = sint (of_nat (length body) :: 64 word)" by simp
  have we: "\<And>s1. write_entry r (visit_file p body) s1 =
     (None, snd (copy_file (visit_file p body) (snd (tw_WriteHeader (visit_file p body) (drop (length r) p) s1))))"
    using write_entry_ok [of "visit_file p body" r] sz by (simp add: visit_file_simps)
  show ?thesis
    using assms(1) by (simp add: handler_reaches_size_check visit_file_simps we split: prod.splits option.splits)
qed


lemma first_entry:
  "handler L m ''/a'' False (visit_file ''/a/f'' [1, 2, 3]) producer_start
     = (None, snd (handler L m ''/a'' False (visit_file ''/a/f'' [1, 2, 3]) producer_start))"
  "gzs (snd (handler L m ''/a'' False (visit_file ''/a/f'' [1, 2, 3]) producer_start))
     = [\<lparr>gz_in = [47, 102, 1, 2, 3], gz_flushes = [], gz_out = 0, gz_closed = False\<rparr>]"
  "pipes (snd (handler L m ''/a'' False (visit_file ''/a/f'' [1, 2, 3]) producer_start))
     = [\<lparr>p_status = PipeOpen, p_bytes = []\<rparr>]"
  "uncompressedCounter (snd (handler L m ''/a'' False (visit_file ''/a/f'' [1, 2, 3]) producer_start)) = 5"
  "compressedCounter (snd (handler L m ''/a'' False (visit_file ''/a/f'' [1, 2, 3]) producer_start)) = 0"
  "gzw (snd (handler L m ''/a'' False (visit_file ''/a/f'' [1, 2, 3]) producer_start)) = 0"
  "writer (snd (handler L m ''/a'' False (visit_file ''/a/f'' [1, 2, 3]) producer_start)) = 0"
  "ch (snd (handler L m ''/a'' False (visit_file ''/a/f'' [1, 2, 3]) producer_start)) = [(0, 0)]"
proof -
  let ?v = "visit_file ''/a/f'' [1, 2, 3]"
  have h: "handler L m ''/a'' False ?v producer_start =
     (None, snd (copy_file ?v (snd (tw_WriteHeader ?v ''/f'' producer_start))))"
    by (subst handler_file) simp_all
  show "handler L m ''/a'' False ?v producer_start = (None, snd (handler L m ''/a'' False ?v producer_start))"
    by (simp add: h)
  show "gzs (snd (handler L m ''/a'' False ?v producer_start))
     = [\<lparr>gz_in = [47, 102, 1, 2, 3], gz_flushes = [], gz_out = 0, gz_closed = False\<rparr>]"
    by (simp add: h copy_file_result tw_WriteHeader_result visit_file_simps)
  show "pipes (snd (handler L m ''/a'' False ?v producer_start)) = [\<lparr>p_status = PipeOpen, p_bytes = []\<rparr>]"
    by (simp add: h)
  show "uncompressedCounter (snd (handler L m ''/a'' False ?v producer_start)) = 5"
    by (simp add: h copy_file_result tw_WriteHeader_result visit_file_simps)
  show "compressedCounter (snd (handler L m ''/a'' False ?v producer_start)) = 0"
    by (simp add: h)
  show "gzw (snd (handler L m ''/a'' False ?v producer_start)) = 0" by (simp add: h)
  show "writer (snd (handler L m ''/a'' False ?v producer_start)) = 0" by (simp add: h)
  show "ch (snd (handler L m ''/a'' False ?v producer_start)) = [(0, 0)]" by (simp add: h)
qed

lemma gz_Flush_compressed:
  "compressedCounter (snd (gz_Flush L g s)) =
     compressedCounter s + of_nat (length (gzFlushOut L (gz_in (gzs s ! g)) (gz_flushes (gzs s ! g))))"
  by (simp add: gz_Flush_def Let_def)

lemma counter_positive:
  "n < 2 ^ 64 \<Longrightarrow> (0 < (of_nat n :: 64 word)) = (0 < n)"
proof -
  assume "n < 2 ^ 64"
  then have "unat (of_nat n :: 64 word) = n" by (simp add: unat_of_nat)
  then show ?thesis by (metis unat_gt_0 word_gt_0)
qed

text \<open>
  Claim C2. In every reachable state of the producer, for an entry that gets
  past the handler's early returns: when the maximum layer size is 0 or the
  uncompressed counter is 0, the size check does nothing and the entry is
  written whatever its size; both counters are 0 at the start and right after a
  split, so the first entry of a segment is never checked. Otherwise the
  compressor is flushed first; if the flush fails its error is returned; if it
  succeeds, the uncompressed counter is the number of bytes written into the
  current compressor, the compressed counter the number of bytes written to the
  current pipe, and a new segment is started (one more handle on the channel) if
  and only if, in \<^verbatim>\<open>float64\<close>,
  \<open>c + (c / u) * (1000 + size) > m - m * 0.05\<close>. The uncompressed counter has
  64 bits: below \<open>2 ^ 64\<close> bytes it is positive exactly when a byte has been
  written to the segment.
\<close>

theorem split_heuristic:
  assumes "reach L m s"
  shows "(m = 0 \<or> uncompressedCounter s = 0 \<longrightarrow> size_check L m v s = (None, s)) \<and>
   (0 < m \<and> 0 < uncompressedCounter s \<longrightarrow>
      (let f = gz_Flush L (gzw s) s; s1 = snd f; c = compressedCounter s1; u = uncompressedCounter s1 in
        trace s1 = trace s @ [EvFlush (gzw s)] \<and>
        u = of_nat (length (gz_in (gzs s ! gzw s))) \<and> u = uncompressedCounter s \<and>
        (fst f \<noteq> None \<longrightarrow> size_check L m v s = (fst f, s1)) \<and>
        (fst f = None \<longrightarrow>
           c = of_nat (length (p_bytes (pipes s1 ! writer s))) \<and>
           size_check L m v s =
             (None,
              if fgt L (fadd L (f_u64 L c)
                          (fmul L (fdiv L (f_u64 L c) (f_u64 L u)) (fadd L (f_1000 L) (f_i64 L (v_size v)))))
                       (fsub L (f_u64 L m) (fmul L (f_u64 L m) (f_005 L)))
              then split L s1 else s1) \<and>
           ch s1 = ch s \<and> ch (split L s1) = ch s @ [(length (ch s), length (ch s))]))) \<and>
   (v_err v = None \<and> v_path v \<noteq> r \<and> (v_symlink v \<longrightarrow> v_readlink v = None) \<and> v_header v = None \<longrightarrow>
      handler L m r False v s =
        (case size_check L m v s of (Some e, s1) \<Rightarrow> (Some e, s1) | (None, s1) \<Rightarrow> write_entry r v s1)) \<and>
   uncompressedCounter producer_start = 0 \<and> uncompressedCounter (split L s) = 0 \<and>
   (length (gz_in (gzs s ! gzw s)) < 2 ^ 64 \<longrightarrow>
      (0 < uncompressedCounter s) = (gz_in (gzs s ! gzw s) \<noteq> []))"
proof -
  have w: "wf s" using assms by (rule reach_wf)
  have c: "counters_ok s" using assms by (rule reach_counters_ok)
  have fourth: "length (gz_in (gzs s ! gzw s)) < 2 ^ 64 \<longrightarrow>
      (0 < uncompressedCounter s) = (gz_in (gzs s ! gzw s) \<noteq> [])"
    using c counter_positive [of "length (gz_in (gzs s ! gzw s))"] by (simp add: counters_ok_def)
  let ?f = "gz_Flush L (gzw s) s"
  let ?s1 = "snd ?f"
  have w1: "wf ?s1" using w by (simp add: wf_gz_Flush wf_cur)
  have c1: "counters_ok ?s1" using w c by (rule counters_ok_gz_Flush)
  have o: "gz_out (gzs s ! gzw s) = writer s" using wf_cur_objs [OF w] by simp
  have l: "writer s < length (pipes s)" using w by (simp add: wf_def)
  have u: "uncompressedCounter ?s1 = of_nat (length (gz_in (gzs s ! gzw s)))"
    using c by (simp add: counters_ok_def)
  have first: "m = 0 \<or> uncompressedCounter s = 0 \<longrightarrow> size_check L m v s = (None, s)"
    by auto
  have cc: "fst ?f = None \<longrightarrow> compressedCounter ?s1 = of_nat (length (p_bytes (pipes ?s1 ! writer s)))"
  proof
    assume "fst ?f = None"
    then have "p_status (pipes s ! writer s) = PipeOpen"
      by (simp add: gz_Flush_result o split: if_splits)
    then have "p_status (pipes ?s1 ! writer ?s1) = PipeOpen" using l by (simp add: gz_Flush_status)
    then show "compressedCounter ?s1 = of_nat (length (p_bytes (pipes ?s1 ! writer s)))"
      using c1 by (simp add: counters_ok_def)
  qed
  have second: "0 < m \<and> 0 < uncompressedCounter s \<longrightarrow>
      (let f = gz_Flush L (gzw s) s; s1 = snd f; c = compressedCounter s1; u = uncompressedCounter s1 in
        trace s1 = trace s @ [EvFlush (gzw s)] \<and>
        u = of_nat (length (gz_in (gzs s ! gzw s))) \<and> u = uncompressedCounter s \<and>
        (fst f \<noteq> None \<longrightarrow> size_check L m v s = (fst f, s1)) \<and>
        (fst f = None \<longrightarrow>
           c = of_nat (length (p_bytes (pipes s1 ! writer s))) \<and>
           size_check L m v s =
             (None,
              if fgt L (fadd L (f_u64 L c)
                          (fmul L (fdiv L (f_u64 L c) (f_u64 L u)) (fadd L (f_1000 L) (f_i64 L (v_size v)))))
                       (fsub L (f_u64 L m) (fmul L (f_u64 L m) (f_005 L)))
              then split L s1 else s1) \<and>
           ch s1 = ch s \<and> ch (split L s1) = ch s @ [(length (ch s), length (ch s))]))"
  proof
    assume h: "0 < m \<and> 0 < uncompressedCounter s"
    then have sc: "size_check L m v s =
     (if fst ?f \<noteq> None then (fst ?f, ?s1)
      else (None, if over_budget L m (compressedCounter ?s1) (uncompressedCounter ?s1) (v_size v)
                  then split L ?s1 else ?s1))"
      by (simp add: size_check_flushed)
    have sp: "ch (split L ?s1) = ch s @ [(length (ch s), length (ch s))]"
      using split_ch [OF w1, of L] by simp
    show "(let f = gz_Flush L (gzw s) s; s1 = snd f; c = compressedCounter s1; u = uncompressedCounter s1 in
        trace s1 = trace s @ [EvFlush (gzw s)] \<and>
        u = of_nat (length (gz_in (gzs s ! gzw s))) \<and> u = uncompressedCounter s \<and>
        (fst f \<noteq> None \<longrightarrow> size_check L m v s = (fst f, s1)) \<and>
        (fst f = None \<longrightarrow>
           c = of_nat (length (p_bytes (pipes s1 ! writer s))) \<and>
           size_check L m v s =
             (None,
              if fgt L (fadd L (f_u64 L c)
                          (fmul L (fdiv L (f_u64 L c) (f_u64 L u)) (fadd L (f_1000 L) (f_i64 L (v_size v)))))
                       (fsub L (f_u64 L m) (fmul L (f_u64 L m) (f_005 L)))
              then split L s1 else s1) \<and>
           ch s1 = ch s \<and> ch (split L s1) = ch s @ [(length (ch s), length (ch s))]))"
      unfolding Let_def using u cc sp sc
      by (simp add: over_budget_def ratio_def)
  qed
  have third: "v_err v = None \<and> v_path v \<noteq> r \<and> (v_symlink v \<longrightarrow> v_readlink v = None) \<and> v_header v = None \<longrightarrow>
      handler L m r False v s =
        (case size_check L m v s of (Some e, s1) \<Rightarrow> (Some e, s1) | (None, s1) \<Rightarrow> write_entry r v s1)"
    using handler_reaches_size_check [of v r L m s] by blast
  show ?thesis using first second third fourth by (simp add: split_uncompressed)
qed

theorem split_heuristic_witness:
  "reach exact_lib 1000 (snd (handler exact_lib 1000 ''/a'' False (visit_file ''/a/f'' [1, 2, 3]) producer_start)) \<and>
   (0 :: 64 word) < 1000 \<and>
   0 < uncompressedCounter (snd (handler exact_lib 1000 ''/a'' False (visit_file ''/a/f'' [1, 2, 3]) producer_start)) \<and>
   size_check exact_lib 1000 (visit_file ''/a/f'' [1, 2, 3])
       (snd (handler exact_lib 1000 ''/a'' False (visit_file ''/a/f'' [1, 2, 3]) producer_start))
     = (None, split exact_lib (snd (gz_Flush exact_lib 0
          (snd (handler exact_lib 1000 ''/a'' False (visit_file ''/a/f'' [1, 2, 3]) producer_start))))) \<and>
   size_check exact_lib 100000 (visit_file ''/a/f'' [1, 2, 3])
       (snd (handler exact_lib 100000 ''/a'' False (visit_file ''/a/f'' [1, 2, 3]) producer_start))
     = (None, snd (gz_Flush exact_lib 0
          (snd (handler exact_lib 100000 ''/a'' False (visit_file ''/a/f'' [1, 2, 3]) producer_start)))) \<and>
   size_check exact_lib 4 (visit_file ''/a/f'' [1, 2, 3]) producer_start = (None, producer_start) \<and>
   length (gz_in (gzs (snd (handler exact_lib 4 ''/a'' False (visit_file ''/a/f'' [1, 2, 3]) producer_start)) ! 0)) = 5"
proof -
  let ?v = "visit_file ''/a/f'' [1, 2, 3]"
  note fe = first_entry(2-8)
  let ?s = "snd (handler exact_lib 1000 ''/a'' False ?v producer_start)"
  let ?t = "snd (handler exact_lib 100000 ''/a'' False ?v producer_start)"
  have r: "reach exact_lib 1000 ?s" by (rule reach_handler [OF reach_start])
  have r2: "reach exact_lib 100000 ?t" by (rule reach_handler [OF reach_start])
  have r0: "reach exact_lib 4 producer_start" by (rule reach_start)
  have u: "0 < uncompressedCounter ?s" "0 < uncompressedCounter ?t" by (simp_all add: fe)
  have f: "fst (gz_Flush exact_lib (gzw ?s) ?s) = None" "fst (gz_Flush exact_lib (gzw ?t) ?t) = None"
    by (simp_all add: gz_Flush_result fe)
  have pb: "p_bytes (pipes (snd (gz_Flush exact_lib 0 ?s)) ! 0) = [47, 102, 1, 2, 3]"
    "p_bytes (pipes (snd (gz_Flush exact_lib 0 ?t)) ! 0) = [47, 102, 1, 2, 3]"
    by (simp_all add: gz_Flush_def Let_def bothCompressed_Write_pipes fe exact_lib_simps copy_out_def)
  have vs: "v_size ?v = 3" by (simp add: visit_file_simps)
  have m: "(0 :: 64 word) < 1000" "(0 :: 64 word) < 100000" by simp_all
  note A = split_heuristic [OF r, of ?v "''/a''", THEN conjunct2, THEN conjunct1, rule_format, OF conjI [OF m(1) u(1)]]
  note B = split_heuristic [OF r2, of ?v "''/a''", THEN conjunct2, THEN conjunct1, rule_format, OF conjI [OF m(2) u(2)]]
  have a: "size_check exact_lib 1000 ?v ?s = (None, split exact_lib (snd (gz_Flush exact_lib 0 ?s)))"
    using A f(1) by (simp add: Let_def fe pb exact_lib_simps vs)
  have b: "size_check exact_lib 100000 ?v ?t = (None, snd (gz_Flush exact_lib 0 ?t))"
    using B f(2) by (simp add: Let_def fe pb exact_lib_simps vs)
  from split_heuristic [OF r0, of ?v "''/a''"]
  have c: "size_check exact_lib 4 ?v producer_start = (None, producer_start)" by simp
  show ?thesis using r u(1) a b c by (simp add: fe)
qed

lemma split_trace:
  "trace (split L s) = trace s @
     [EvTwClose (tw s), EvGzClose (gzw s), EvWriterClose (writer s), EvNewPipe (length (pipes s)),
      EvResetUncompressed, EvResetCompressed, EvNewGz (length (gzs s)), EvNewDigester (length (digs s)),
      EvNewTw (length (tws s)), EvSend (length (pipes s)) (length (digs s))]"
  by (simp add: split_def Let_def)

lemma split_vars:
  "tw (split L s) = length (tws s)" "gzw (split L s) = length (gzs s)"
  "writer (split L s) = length (pipes s)" "diffID (split L s) = length (digs s)"
  "uncompressedCounter (split L s) = 0" "compressedCounter (split L s) = 0"
  "ch (split L s) = ch s @ [(length (pipes s), length (digs s))]"
  by (simp_all add: split_def Let_def)

lemma split_new:
  "digs (split L s) ! length (digs s) = []"
  "gzs (split L s) ! length (gzs s) = \<lparr>gz_in = [], gz_flushes = [], gz_out = length (pipes s), gz_closed = False\<rparr>"
  "tws (split L s) ! length (tws s) = \<lparr>tw_gz = length (gzs s), tw_dig = length (digs s), tw_pad = 0, tw_closed = False\<rparr>"
  "pipes (split L s) ! length (pipes s) = \<lparr>p_status = PipeOpen, p_bytes = []\<rparr>"
  by (simp_all add: split_def Let_def nth_append)

lemma split_lengths:
  "length (digs (split L s)) = Suc (length (digs s))" "length (gzs (split L s)) = Suc (length (gzs s))"
  "length (tws (split L s)) = Suc (length (tws s))" "length (pipes (split L s)) = Suc (length (pipes s))"
  by (simp_all add: split_def Let_def)

lemma split_old_tw: "tw s < length (tws s) \<Longrightarrow> tw_closed (tws (split L s) ! tw s)"
  by (simp add: split_def Let_def nth_append tw_Close_tws)

lemma split_old_gz: "gzw s < length (gzs s) \<Longrightarrow> gz_closed (gzs (split L s) ! gzw s)"
  by (simp add: split_def Let_def nth_append gz_Close_gzs)

lemma split_old_pipe:
  assumes "writer s < length (pipes s)" and "p_status (pipes s ! writer s) = PipeOpen"
  shows "p_status (pipes (split L s) ! writer s) = PipeEOF"
proof -
  let ?s1 = "tw_Close (tw s) s"
  let ?s2 = "gz_Close L (gzw ?s1) ?s1"
  have l2: "writer s < length (pipes ?s2)" using assms(1) by simp
  have "p_status (pipes ?s2 ! writer s) = PipeOpen"
    using assms by (cases "writer s = gz_out (gzs ?s1 ! gzw s)")
      (simp_all add: gz_Close_pipes bothCompressed_Write_pipes)
  then have "p_status (pipes (writer_Close (writer ?s2) ?s2) ! writer s) = PipeEOF"
    using l2 by (simp add: pipe_close_pipes)
  then show ?thesis using l2 by (simp add: split_def Let_def nth_append)
qed

lemma write_entry_other:
  assumes "wf s" and "k \<noteq> tw s"
  shows "digs (snd (write_entry r v s)) ! k = digs s ! k \<and> gzs (snd (write_entry r v s)) ! k = gzs s ! k"
proof -
  let ?h = "snd (tw_WriteHeader v (drop (length r) (v_path v)) s)"
  have o: "tw_dig (tws s ! tw s) = tw s" "tw_gz (tws s ! tw s) = tw s"
    using assms(1) by (simp_all add: wf_def)
  have h: "digs ?h ! k = digs s ! k \<and> gzs ?h ! k = gzs s ! k"
    using assms(2) by (simp add: tw_WriteHeader_result o)
  have wh: "wf ?h" using assms(1) by (rule wf_tw_WriteHeader)
  have oh: "tw_dig (tws ?h ! tw ?h) = tw s" "tw_gz (tws ?h ! tw ?h) = tw s"
    using wh by (simp_all add: wf_def)
  have c: "digs (snd (copy_file v ?h)) ! k = digs s ! k \<and> gzs (snd (copy_file v ?h)) ! k = gzs s ! k"
    using assms(2) h oh by (simp add: copy_file_result)
  from write_entry_cases [of r v s] h c show ?thesis by auto
qed

lemma write_entry_trace:
  "\<exists>evs. trace (snd (write_entry r v s)) = trace s @ EvWriteHeader (tw s) (drop (length r) (v_path v)) # evs"
  using write_entry_cases [of r v s] by auto

lemma write_entry_header:
  assumes "wf s" and "tw_pad (tws s ! tw s) = 0"
  shows "\<exists>rest. digs (snd (write_entry r v s)) ! tw s
            = digs s ! tw s @ fst (v_writeHeader v (drop (length r) (v_path v))) @ rest"
proof -
  let ?n = "drop (length r) (v_path v)"
  let ?h = "snd (tw_WriteHeader v ?n s)"
  have o: "tw_dig (tws s ! tw s) = tw s" and l: "tw s < length (digs s)"
    using assms(1) by (simp_all add: wf_def)
  have h: "digs ?h ! tw s = digs s ! tw s @ fst (v_writeHeader v ?n)"
    using l by (simp add: tw_WriteHeader_result o assms(2))
  have wh: "wf ?h" using assms(1) by (rule wf_tw_WriteHeader)
  have oh: "tw_dig (tws ?h ! tw ?h) = tw s" using wh by (simp add: wf_def)
  have c: "digs (snd (copy_file v ?h)) ! tw s = digs s ! tw s @ fst (v_writeHeader v ?n) @ fst (v_copy v)"
    using l h oh by (simp add: copy_file_result)
  from write_entry_cases [of r v s] h c show ?thesis by (metis append_Nil2)
qed


text \<open>
  Claim C3. When the split decision fires for an entry, the producer, after the
  flush, closes the tar writer, the compressor and the write side of the pipe
  of the current segment (its reader then sees the end of the stream),
  allocates the new pipe, resets the uncompressed and the compressed counter,
  allocates the new compressor, the new digester and the new tar writer, and
  sends the new pipe's read side with the new digester on the channel, in this
  order; only then is the entry written, by the new tar writer: its header is
  the first thing in the new digester, and no digester, compressor or pipe of
  an earlier segment changes.
\<close>

theorem split_then_pending_entry:
  assumes "reach L m s" and "v_err v = None" and "v_path v \<noteq> r"
    and "v_symlink v \<longrightarrow> v_readlink v = None" and "v_header v = None"
    and "0 < m" and "0 < uncompressedCounter s" and "fst (gz_Flush L (gzw s) s) = None"
    and "over_budget L m (compressedCounter (snd (gz_Flush L (gzw s) s)))
           (uncompressedCounter (snd (gz_Flush L (gzw s) s))) (v_size v)"
    and "s2 = split L (snd (gz_Flush L (gzw s) s))" and "n = length (ch s)"
  shows "handler L m r False v s = write_entry r v s2 \<and>
    trace s2 = trace s @
      [EvFlush (n - 1), EvTwClose (n - 1), EvGzClose (n - 1), EvWriterClose (n - 1), EvNewPipe n,
       EvResetUncompressed, EvResetCompressed, EvNewGz n, EvNewDigester n, EvNewTw n, EvSend n n] \<and>
    (\<exists>evs. trace (snd (write_entry r v s2)) = trace s2 @ EvWriteHeader n (drop (length r) (v_path v)) # evs) \<and>
    tw_closed (tws s2 ! (n - 1)) \<and> gz_closed (gzs s2 ! (n - 1)) \<and> p_status (pipes s2 ! (n - 1)) = PipeEOF \<and>
    uncompressedCounter s2 = 0 \<and> compressedCounter s2 = 0 \<and>
    pipes s2 ! n = \<lparr>p_status = PipeOpen, p_bytes = []\<rparr> \<and>
    gzs s2 ! n = \<lparr>gz_in = [], gz_flushes = [], gz_out = n, gz_closed = False\<rparr> \<and>
    digs s2 ! n = [] \<and>
    tws s2 ! n = \<lparr>tw_gz = n, tw_dig = n, tw_pad = 0, tw_closed = False\<rparr> \<and>
    ch s2 = ch s @ [(n, n)] \<and>
    (\<forall>k<n. digs (snd (write_entry r v s2)) ! k = digs s2 ! k \<and>
           gzs (snd (write_entry r v s2)) ! k = gzs s2 ! k \<and>
           pipes (snd (write_entry r v s2)) ! k = pipes s2 ! k) \<and>
    (\<exists>rest. digs (snd (write_entry r v s2)) ! n = fst (v_writeHeader v (drop (length r) (v_path v))) @ rest)"
proof -
  let ?s1 = "snd (gz_Flush L (gzw s) s)"
  have w: "wf s" using assms(1) by (rule reach_wf)
  have w1: "wf ?s1" using w by (simp add: wf_gz_Flush wf_cur)
  have w2: "wf s2" unfolding assms(10) using w1 by (rule wf_split)
  have len: "length (pipes ?s1) = n" "length (gzs ?s1) = n" "length (digs ?s1) = n" "length (tws ?s1) = n"
    using w w1 by (simp_all add: wf_def assms(11))
  have var: "tw ?s1 = n - 1" "gzw ?s1 = n - 1" "writer ?s1 = n - 1" "gzw s = n - 1" "writer s = n - 1"
    "tw s = n - 1"
    using w by (simp_all add: wf_def assms(11))
  have len0: "length (pipes s) = n" "length (gzs s) = n" "length (digs s) = n" "length (tws s) = n"
    using w by (simp_all add: wf_def assms(11))
  have pos: "0 < n" using w by (simp add: wf_def assms(11))
  have sc: "size_check L m v s = (None, s2)"
    using assms(6,7,8,9) by (simp add: size_check_flushed assms(10))
  have h: "handler L m r False v s = write_entry r v s2"
    using assms(2,3,4,5) by (simp add: handler_reaches_size_check sc)
  have tr: "trace s2 = trace s @
      [EvFlush (n - 1), EvTwClose (n - 1), EvGzClose (n - 1), EvWriterClose (n - 1), EvNewPipe n,
       EvResetUncompressed, EvResetCompressed, EvNewGz n, EvNewDigester n, EvNewTw n, EvSend n n]"
    unfolding assms(10) by (simp add: split_trace len len0 var)
  have t2: "tw s2 = n" unfolding assms(10) by (simp add: split_vars len len0)
  have we: "\<exists>evs. trace (snd (write_entry r v s2)) = trace s2 @ EvWriteHeader n (drop (length r) (v_path v)) # evs"
    using write_entry_trace [of r v s2] by (simp add: t2)
  have otw: "tw_closed (tws s2 ! (n - 1))"
    unfolding assms(10) using split_old_tw [of ?s1 L] pos by (simp add: var len len0)
  have ogz: "gz_closed (gzs s2 ! (n - 1))"
    unfolding assms(10) using split_old_gz [of ?s1 L] pos by (simp add: var len len0)
  have o: "gz_out (gzs s ! gzw s) = writer s" using wf_cur_objs [OF w] by simp
  have ls: "writer s < length (pipes s)" using w by (simp add: wf_def)
  have "p_status (pipes s ! writer s) = PipeOpen"
    using assms(8) by (simp add: gz_Flush_result o split: if_splits)
  then have op: "p_status (pipes ?s1 ! writer ?s1) = PipeOpen" using ls by (simp add: gz_Flush_status)
  have opi: "p_status (pipes s2 ! (n - 1)) = PipeEOF"
    unfolding assms(10) using split_old_pipe [of ?s1 L] op pos by (simp add: var len len0)
  have cnt: "uncompressedCounter s2 = 0" "compressedCounter s2 = 0" "ch s2 = ch s @ [(n, n)]"
    unfolding assms(10) by (simp_all add: split_vars len len0)
  have new: "pipes s2 ! n = \<lparr>p_status = PipeOpen, p_bytes = []\<rparr>"
    "gzs s2 ! n = \<lparr>gz_in = [], gz_flushes = [], gz_out = n, gz_closed = False\<rparr>"
    "digs s2 ! n = []"
    "tws s2 ! n = \<lparr>tw_gz = n, tw_dig = n, tw_pad = 0, tw_closed = False\<rparr>"
    unfolding assms(10) using split_new [of L ?s1] by (simp_all add: len len0)
  have old: "\<forall>k<n. digs (snd (write_entry r v s2)) ! k = digs s2 ! k \<and>
           gzs (snd (write_entry r v s2)) ! k = gzs s2 ! k \<and>
           pipes (snd (write_entry r v s2)) ! k = pipes s2 ! k"
    using write_entry_other [OF w2, of _ r v] by (simp add: t2)
  have hd: "\<exists>rest. digs (snd (write_entry r v s2)) ! n = fst (v_writeHeader v (drop (length r) (v_path v))) @ rest"
    using write_entry_header [OF w2, of r v] new(3,4) by (simp add: t2)
  show ?thesis using h tr we otw ogz opi cnt new old hd by blast
qed


theorem split_then_pending_entry_witness:
  "reach exact_lib 1000 (snd (handler exact_lib 1000 ''/a'' False (visit_file ''/a/f'' [1, 2, 3]) producer_start)) \<and>
   (0 :: 64 word) < 1000 \<and>
   0 < uncompressedCounter (snd (handler exact_lib 1000 ''/a'' False (visit_file ''/a/f'' [1, 2, 3]) producer_start)) \<and>
   fst (gz_Flush exact_lib 0 (snd (handler exact_lib 1000 ''/a'' False (visit_file ''/a/f'' [1, 2, 3]) producer_start))) = None \<and>
   over_budget exact_lib 1000 5 5 (v_size (visit_file ''/a/f'' [1, 2, 3])) \<and>
   trace (split exact_lib (snd (gz_Flush exact_lib 0
            (snd (handler exact_lib 1000 ''/a'' False (visit_file ''/a/f'' [1, 2, 3]) producer_start))))) =
     trace (snd (handler exact_lib 1000 ''/a'' False (visit_file ''/a/f'' [1, 2, 3]) producer_start)) @
      [EvFlush 0, EvTwClose 0, EvGzClose 0, EvWriterClose 0, EvNewPipe 1,
       EvResetUncompressed, EvResetCompressed, EvNewGz 1, EvNewDigester 1, EvNewTw 1, EvSend 1 1] \<and>
   handler exact_lib 1000 ''/a'' False (visit_file ''/a/f'' [1, 2, 3])
       (snd (handler exact_lib 1000 ''/a'' False (visit_file ''/a/f'' [1, 2, 3]) producer_start)) =
     write_entry ''/a'' (visit_file ''/a/f'' [1, 2, 3])
       (split exact_lib (snd (gz_Flush exact_lib 0
            (snd (handler exact_lib 1000 ''/a'' False (visit_file ''/a/f'' [1, 2, 3]) producer_start)))))"
proof -
  let ?v = "visit_file ''/a/f'' [1, 2, 3]"
  let ?s = "snd (handler exact_lib 1000 ''/a'' False ?v producer_start)"
  note fe = first_entry(2-8)
  have r: "reach exact_lib 1000 ?s" by (rule reach_handler [OF reach_start])
  have v: "v_err ?v = None" "v_path ?v \<noteq> ''/a''" "v_symlink ?v \<longrightarrow> v_readlink ?v = None" "v_header ?v = None"
    by (simp_all add: visit_file_simps)
  have m: "(0 :: 64 word) < 1000" by simp
  have u: "0 < uncompressedCounter ?s" by (simp add: fe)
  have g: "gzw ?s = 0" by (simp add: fe)
  have f: "fst (gz_Flush exact_lib (gzw ?s) ?s) = None" by (simp add: gz_Flush_result fe)
  have cc: "compressedCounter (snd (gz_Flush exact_lib (gzw ?s) ?s)) = 5"
    by (simp add: gz_Flush_compressed fe exact_lib_simps copy_out_def)
  have uu: "uncompressedCounter (snd (gz_Flush exact_lib (gzw ?s) ?s)) = 5" by (simp add: fe)
  have ob: "over_budget exact_lib 1000 5 5 (v_size ?v)"
    by (simp add: over_budget_def ratio_def exact_lib_simps visit_file_simps)
  have ob': "over_budget exact_lib 1000 (compressedCounter (snd (gz_Flush exact_lib (gzw ?s) ?s)))
           (uncompressedCounter (snd (gz_Flush exact_lib (gzw ?s) ?s))) (v_size ?v)"
    unfolding cc uu by (rule ob)
  have n: "length (ch ?s) = 1" by (simp add: fe)
  from split_then_pending_entry [OF r v m u f ob' refl refl] r u f ob
  show ?thesis by (simp add: g n)
qed

text \<open>
  The history of a split at a concrete state: the new pipe is allocated before
  either counter is reset.
\<close>

lemma first_entry_trace:
  "trace (snd (handler L m ''/a'' False (visit_file ''/a/f'' [1, 2, 3]) producer_start)) =
     [EvNewPipe 0, EvNewGz 0, EvNewDigester 0, EvSend 0 0, EvNewTw 0, EvWriteHeader 0 ''/f'', EvCopy 0]"
proof -
  let ?v = "visit_file ''/a/f'' [1, 2, 3]"
  have h: "handler L m ''/a'' False ?v producer_start =
     (None, snd (copy_file ?v (snd (tw_WriteHeader ?v ''/f'' producer_start))))"
    by (subst handler_file) simp_all
  show ?thesis by (simp add: h)
qed

theorem split_order_counterexample:
  "EvNewPipe 1 \<in> set (trace (split exact_lib (snd (gz_Flush exact_lib 0
       (snd (handler exact_lib 1000 ''/a'' False (visit_file ''/a/f'' [1, 2, 3]) producer_start)))))) \<and>
   EvResetUncompressed \<in> set (trace (split exact_lib (snd (gz_Flush exact_lib 0
       (snd (handler exact_lib 1000 ''/a'' False (visit_file ''/a/f'' [1, 2, 3]) producer_start)))))) \<and>
   EvResetCompressed \<in> set (trace (split exact_lib (snd (gz_Flush exact_lib 0
       (snd (handler exact_lib 1000 ''/a'' False (visit_file ''/a/f'' [1, 2, 3]) producer_start)))))) \<and>
   EvResetUncompressed \<notin> set (takeWhile ((\<noteq>) (EvNewPipe 1)) (trace (split exact_lib (snd (gz_Flush exact_lib 0
       (snd (handler exact_lib 1000 ''/a'' False (visit_file ''/a/f'' [1, 2, 3]) producer_start))))))) \<and>
   EvResetCompressed \<notin> set (takeWhile ((\<noteq>) (EvNewPipe 1)) (trace (split exact_lib (snd (gz_Flush exact_lib 0
       (snd (handler exact_lib 1000 ''/a'' False (visit_file ''/a/f'' [1, 2, 3]) producer_start)))))))"
proof -
  let ?s = "snd (handler exact_lib 1000 ''/a'' False (visit_file ''/a/f'' [1, 2, 3]) producer_start)"
  note fe = first_entry(2-8)
  have "length (pipes ?s) = 1" "length (gzs ?s) = 1" by (simp_all add: fe)
  moreover have "tw ?s = 0" "length (digs ?s) = 1" "length (tws ?s) = 1"
    using wf_handler [OF wf_start, of exact_lib 1000 "''/a''" False "visit_file ''/a/f'' [1, 2, 3]"]
    by (simp_all add: wf_def fe)
  ultimately have t: "trace (split exact_lib (snd (gz_Flush exact_lib 0 ?s))) =
     [EvNewPipe 0, EvNewGz 0, EvNewDigester 0, EvSend 0 0, EvNewTw 0, EvWriteHeader 0 ''/f'', EvCopy 0,
      EvFlush 0, EvTwClose 0, EvGzClose 0, EvWriterClose 0, EvNewPipe 1,
      EvResetUncompressed, EvResetCompressed, EvNewGz 1, EvNewDigester 1, EvNewTw 1, EvSend 1 1]"
    by (simp add: split_trace first_entry_trace fe)
  show ?thesis unfolding t by simp
qed

subsection \<open>A committed and a failed segment\<close>

text \<open>
  A task over an empty directory commits its one segment; a task whose root
  cannot be read commits none and returns the error its pipe was closed with.
\<close>

theorem addBlob_lists_aligned_witness:
  "length (rp_diffID (task_a 5 [''/b''])) = length (rp_layerDesc (task_a 5 [''/b''])) \<and>
   addBlob exact_lib fs_a None (task_a 5 [''/b''])
     = (None, snd (addBlob exact_lib fs_a None (task_a 5 [''/b'']))) \<and>
   length (ch (producer exact_lib 5 fs_a [''/b''] None)) = 1 \<and>
   length (rp_diffID (snd (addBlob exact_lib fs_a None (task_a 5 [''/b''])))) = 1 \<and>
   length (rp_layerDesc (snd (addBlob exact_lib fs_a None (task_a 5 [''/b''])))) = 1 \<and>
   addBlob exact_lib fs_a None (task_a 0 [''/bad''])
     = (Some (OtherError ''lstat''), task_a 0 [''/bad'']) \<and>
   PutBlob exact_lib (pipes (producer exact_lib 0 fs_a [''/bad''] None) ! 0) = Inl (OtherError ''lstat'')"
proof -
  let ?rp = "task_a 5 [''/b'']"
  let ?rq = "task_a 0 [''/bad'']"
  have h: "length (rp_diffID ?rp) = length (rp_layerDesc ?rp)" by (simp add: task_a_def)
  have f: "rp_maxLayerSize ?rp = 5" "rp_rootfses ?rp = [''/b'']" "rp_diffID ?rp = []" "rp_layerDesc ?rp = []"
    "rp_maxLayerSize ?rq = 0" "rp_rootfses ?rq = [''/bad'']" "rp_diffID ?rq = []"
    by (simp_all add: task_a_def)
  have ro: "roots_only fs_a (rp_rootfses ?rp)"
    by (simp add: roots_only_def task_a_def fs_a_def visit_root_def)
  have a: "addBlob exact_lib fs_a None ?rp = (None, snd (addBlob exact_lib fs_a None ?rp))"
    by (simp add: addBlob_exact_roots_only [OF ro])
  have c1: "ch (producer exact_lib 5 fs_a [''/b''] None) = [(0, 0)]"
    using roots_only_digs [OF ro, of exact_lib 5 None] by (simp add: f)
  from addBlob_lists_aligned [OF a refl] obtain n where n:
    "length (rp_diffID (snd (addBlob exact_lib fs_a None ?rp))) = length (rp_diffID ?rp) + n"
    "length (rp_layerDesc (snd (addBlob exact_lib fs_a None ?rp))) = length (rp_layerDesc ?rp) + n"
    "((None :: error option) = None) = (n = length (ch (producer exact_lib (rp_maxLayerSize ?rp) fs_a (rp_rootfses ?rp) None)))"
    by blast
  have n1: "n = 1" using n(3) by (simp add: f c1)
  have b: "addBlob exact_lib fs_a None ?rq = (Some (OtherError ''lstat''), ?rq)"
    by (rule addBlob_walk_error [where r = "''/bad''" and vs = "[]" and v = "(visit_root ''/bad'')\<lparr>v_err := Some (OtherError ''lstat'')\<rparr>"])
       (simp_all add: task_a_def fs_a_def)
  from addBlob_lists_aligned [OF b refl] obtain k where k:
    "length (rp_diffID ?rq) = length (rp_diffID ?rq) + k"
    "\<forall>x. Some (OtherError ''lstat'') = Some x \<longrightarrow>
       PutBlob exact_lib (pipes (producer exact_lib (rp_maxLayerSize ?rq) fs_a (rp_rootfses ?rq) None) !
          fst (ch (producer exact_lib (rp_maxLayerSize ?rq) fs_a (rp_rootfses ?rq) None) ! k)) = Inl x"
    by blast
  have k0: "k = 0" using k(1) by simp
  have c0: "ch (producer exact_lib 0 fs_a [''/bad''] None) = [(0, 0)]" by (rule ch_producer_unbounded)
  have pb: "PutBlob exact_lib (pipes (producer exact_lib 0 fs_a [''/bad''] None) ! 0) = Inl (OtherError ''lstat'')"
    using k(2) by (simp add: k0 f c0)
  show ?thesis using h a b c1 n(1,2) pb by (simp add: n1 f)
qed

end
